theory Spec2Isabelle
  imports Complex_Main "HOL-Library.Word"
begin

section \<open>Python values, errors and the \<open>struct\<close> module\<close>

text \<open>
  The program is \<^verbatim>\<open>exercice.py\<close>: a writer and a reader of 16-bit PCM WAVE files.
  A \<^verbatim>\<open>bytes\<close> object is a list of bytes, a Python \<^verbatim>\<open>int\<close> is an \<open>int\<close>, and an
  exception is a value \<open>Inl e\<close> of a result type \<open>error + 'a\<close>.
\<close>

type_synonym byte = "8 word"

datatype error = StructError | ZeroDivisionError | OverflowError | TypeError | ValueError

fun and_then :: "error + 'a \<Rightarrow> ('a \<Rightarrow> error + 'b) \<Rightarrow> error + 'b" where
  "and_then (Inl e) f = Inl e"
| "and_then (Inr x) f = f x"

text \<open>
  The format strings of the program use four format characters, always in the
  little-endian standard mode \<^verbatim>\<open><\<close> (no padding between fields):
  \<^verbatim>\<open>4s\<close> (a byte string of the given length), \<^verbatim>\<open>I\<close> (unsigned 32 bits),
  \<^verbatim>\<open>H\<close> (unsigned 16 bits) and \<^verbatim>\<open>h\<close> (signed 16 bits). A format is the list of its
  fields; the spaces of the format strings separate fields and mean nothing.
\<close>

datatype field = Fmt_s nat | Fmt_I | Fmt_H | Fmt_h

datatype val = VBytes "byte list" | VInt int

fun field_size :: "field \<Rightarrow> nat" where
  "field_size (Fmt_s n) = n"
| "field_size Fmt_I = 4"
| "field_size Fmt_H = 2"
| "field_size Fmt_h = 2"

definition calcsize :: "field list \<Rightarrow> nat" where
  "calcsize fmt = sum_list (map field_size fmt)"

text \<open>Little-endian bytes of an integer (two's complement when it is negative), and back.\<close>

definition le_bytes :: "nat \<Rightarrow> int \<Rightarrow> byte list" where
  "le_bytes n v = map (\<lambda>k. word_of_int (v div 256 ^ k)) [0..<n]"

fun from_le :: "byte list \<Rightarrow> int" where
  "from_le [] = 0"
| "from_le (b # bs) = uint b + 256 * from_le bs"

text \<open>
  \<^verbatim>\<open>struct.pack\<close> raises \<^verbatim>\<open>struct.error\<close> when an integer is outside the range of its
  field, when an argument has the wrong type, and when the number of arguments is not
  the number of fields. A byte string is cut or padded with zero bytes to its field.
\<close>

fun pack_field :: "field \<Rightarrow> val \<Rightarrow> error + byte list" where
  "pack_field (Fmt_s n) (VBytes bs) = Inr (take n bs @ replicate (n - length bs) 0)"
| "pack_field Fmt_I (VInt v) =
     (if 0 \<le> v \<and> v \<le> 4294967295 then Inr (le_bytes 4 v) else Inl StructError)"
| "pack_field Fmt_H (VInt v) =
     (if 0 \<le> v \<and> v \<le> 65535 then Inr (le_bytes 2 v) else Inl StructError)"
| "pack_field Fmt_h (VInt v) =
     (if - 32768 \<le> v \<and> v \<le> 32767 then Inr (le_bytes 2 v) else Inl StructError)"
| "pack_field _ _ = Inl StructError"

fun pack :: "field list \<Rightarrow> val list \<Rightarrow> error + byte list" where
  "pack [] [] = Inr []"
| "pack (f # fs) (v # vs) =
     and_then (pack_field f v) (\<lambda>b. and_then (pack fs vs) (\<lambda>bs. Inr (b @ bs)))"
| "pack _ _ = Inl StructError"

text \<open>
  \<^verbatim>\<open>struct.unpack\<close> raises \<^verbatim>\<open>struct.error\<close> unless the buffer has exactly the size of
  the format.
\<close>

fun unpack_field :: "field \<Rightarrow> byte list \<Rightarrow> val" where
  "unpack_field (Fmt_s n) bs = VBytes bs"
| "unpack_field Fmt_I bs = VInt (from_le bs)"
| "unpack_field Fmt_H bs = VInt (from_le bs)"
| "unpack_field Fmt_h bs =
     VInt (let u = from_le bs in if 32768 \<le> u then u - 65536 else u)"

fun unpack_fields :: "field list \<Rightarrow> byte list \<Rightarrow> val list" where
  "unpack_fields [] bs = []"
| "unpack_fields (f # fs) bs =
     unpack_field f (take (field_size f) bs) # unpack_fields fs (drop (field_size f) bs)"

definition unpack :: "field list \<Rightarrow> byte list \<Rightarrow> error + val list" where
  "unpack fmt bs =
     (if length bs \<noteq> calcsize fmt then Inl StructError else Inr (unpack_fields fmt bs))"

section \<open>Constants and headers\<close>

definition SAMPLING_FREQ :: int where
  "SAMPLING_FREQ = 44100"

definition SAMPLE_BITS :: int where
  "SAMPLE_BITS = 16"

definition SAMPLE_WIDTH :: int where
  "SAMPLE_WIDTH = SAMPLE_BITS div 8"

definition MAX_SAMPLE_VALUE :: int where
  "MAX_SAMPLE_VALUE = 2 ^ nat (SAMPLE_BITS - 1) - 1"

definition RIFF_HEADER_STRUCT :: "field list" where
  "RIFF_HEADER_STRUCT = [Fmt_s 4, Fmt_I, Fmt_s 4]"

definition FORMAT_HEADER_STRUCT :: "field list" where
  "FORMAT_HEADER_STRUCT = [Fmt_s 4, Fmt_I, Fmt_H, Fmt_H, Fmt_I, Fmt_I, Fmt_H, Fmt_H]"

definition DATA_HEADER_STRUCT :: "field list" where
  "DATA_HEADER_STRUCT = [Fmt_s 4, Fmt_I]"

definition WAVE_FILE_HEADERS_STRUCT :: "field list" where
  "WAVE_FILE_HEADERS_STRUCT = RIFF_HEADER_STRUCT @ FORMAT_HEADER_STRUCT @ DATA_HEADER_STRUCT"

text \<open>
  \<^verbatim>\<open>create_headers\<close> calls \<^verbatim>\<open>struct.calcsize(FORMAT_HEADER_STRUCT)\<close> on a format with
  no \<^verbatim>\<open><\<close>, that is in native mode; every field of that format starts at a multiple of
  its own size, so the native size is the standard one, 24.
\<close>

record WaveFileHeaders =
  riff_id :: "byte list"
  file_size :: int
  wave :: "byte list"
  fmt_id :: "byte list"
  fmt_size :: int
  wav_type :: int
  num_channels :: int
  sampling_freq :: int
  bytes_per_second :: int
  bytes_per_sample :: int
  sample_bits :: int
  data_id :: "byte list"
  data_size :: int

text \<open>The byte strings \<^verbatim>\<open>b"RIFF"\<close>, \<^verbatim>\<open>b"WAVE"\<close>, \<^verbatim>\<open>b"fmt "\<close> and \<^verbatim>\<open>b"data"\<close>.\<close>

definition b_RIFF :: "byte list" where
  "b_RIFF = [0x52, 0x49, 0x46, 0x46]"

definition b_WAVE :: "byte list" where
  "b_WAVE = [0x57, 0x41, 0x56, 0x45]"

definition b_fmt :: "byte list" where
  "b_fmt = [0x66, 0x6D, 0x74, 0x20]"

definition b_data :: "byte list" where
  "b_data = [0x64, 0x61, 0x74, 0x61]"

definition create_headers :: "int \<Rightarrow> WaveFileHeaders" where
  "create_headers num_samples =
     (let data_size = num_samples * SAMPLE_WIDTH;
          riff_file_size = int (calcsize WAVE_FILE_HEADERS_STRUCT) - 8 + data_size
      in \<lparr> riff_id = b_RIFF,
           file_size = riff_file_size,
           wave = b_WAVE,
           fmt_id = b_fmt,
           fmt_size = int (calcsize FORMAT_HEADER_STRUCT) - 8,
           wav_type = 1,
           num_channels = 2,
           sampling_freq = SAMPLING_FREQ,
           bytes_per_second = SAMPLING_FREQ * SAMPLE_WIDTH,
           bytes_per_sample = SAMPLE_WIDTH,
           sample_bits = SAMPLE_BITS,
           data_id = b_data,
           data_size = data_size \<rparr>)"

text \<open>
  \<^verbatim>\<open>headers_struct.pack(*headers)\<close> passes the thirteen fields in their order, and
  \<^verbatim>\<open>WaveFileHeaders(*headers_struct.unpack(header_data))\<close> builds the tuple from
  thirteen values (\<^verbatim>\<open>TypeError\<close> for any other number of them). The record is typed,
  so values of another shape than the format gives are refused with the same error.
\<close>

definition vals_of_headers :: "WaveFileHeaders \<Rightarrow> val list" where
  "vals_of_headers h =
     [VBytes (riff_id h), VInt (file_size h), VBytes (wave h), VBytes (fmt_id h),
      VInt (fmt_size h), VInt (wav_type h), VInt (num_channels h), VInt (sampling_freq h),
      VInt (bytes_per_second h), VInt (bytes_per_sample h), VInt (sample_bits h),
      VBytes (data_id h), VInt (data_size h)]"

definition headers_of_vals :: "val list \<Rightarrow> error + WaveFileHeaders" where
  "headers_of_vals vs =
     (case vs of
        [VBytes a, VInt b, VBytes c, VBytes d, VInt e, VInt f, VInt g, VInt h, VInt i,
         VInt j, VInt k, VBytes l, VInt m] \<Rightarrow>
          Inr \<lparr> riff_id = a, file_size = b, wave = c, fmt_id = d, fmt_size = e,
                wav_type = f, num_channels = g, sampling_freq = h, bytes_per_second = i,
                bytes_per_sample = j, sample_bits = k, data_id = l, data_size = m \<rparr>
      | _ \<Rightarrow> Inl TypeError)"

section \<open>Floating point\<close>

text \<open>
  A Python \<^verbatim>\<open>float\<close> is an IEEE 754 binary64 number. A finite float is modelled by the
  real number it is, and an arithmetic operation by its exact result rounded to the
  nearest binary64 number, ties to even: \<open>fl\<close>. The binary64 numbers near \<open>x\<close> are the
  multiples of \<open>2 powi ulp_exp x\<close>: 53 significant bits, and the fixed spacing
  \<open>2 powi (- 1074)\<close> below \<open>2 powi (- 1022)\<close>. A rounded result of magnitude \<open>2 ^ 1024\<close>
  or more is an infinity. A float is a finite number, an infinity or NaN.
\<close>

datatype pyfloat = Finite real | PosInf | NegInf | NaN

definition round_even :: "real \<Rightarrow> int" where
  "round_even y =
     (let n = \<lfloor>y\<rfloor>; r = y - of_int n
      in if r < 1 / 2 then n else if 1 / 2 < r then n + 1 else if even n then n else n + 1)"

text \<open>The exponent of the binade of a positive number: \<open>\<lfloor>log 2 x\<rfloor>\<close>, computed.\<close>

function floor_log2 :: "real \<Rightarrow> int" where
  "floor_log2 x =
     (if x \<le> 0 then 0
      else if 2 \<le> x then floor_log2 (x / 2) + 1
      else if x < 1 then floor_log2 (x * 2) - 1
      else 0)"
  by pat_completeness auto
termination
proof (relation "measure (\<lambda>x. nat \<bar>\<lfloor>log 2 x\<rfloor>\<bar>)")
  show "wf (measure (\<lambda>x. nat \<bar>\<lfloor>log 2 x\<rfloor>\<bar>))" by simp
next
  fix x :: real
  assume "\<not> x \<le> 0" and "2 \<le> x"
  then have "log 2 (x / 2) = log 2 x - 1" and "1 \<le> log 2 x"
    by (simp_all add: log_divide le_log_iff)
  then have "\<lfloor>log 2 (x / 2)\<rfloor> = \<lfloor>log 2 x\<rfloor> - 1" and "1 \<le> \<lfloor>log 2 x\<rfloor>"
    by (simp_all add: le_floor_iff)
  then have "\<bar>\<lfloor>log 2 (x / 2)\<rfloor>\<bar> < \<bar>\<lfloor>log 2 x\<rfloor>\<bar>" by linarith
  then show "(x / 2, x) \<in> measure (\<lambda>x. nat \<bar>\<lfloor>log 2 x\<rfloor>\<bar>)" by simp
next
  fix x :: real
  assume "\<not> x \<le> 0" and "x < 1"
  then have "log 2 (x * 2) = log 2 x + 1" and "log 2 x < 0"
    by (simp_all add: log_mult)
  then have "\<lfloor>log 2 (x * 2)\<rfloor> = \<lfloor>log 2 x\<rfloor> + 1" and "\<lfloor>log 2 x\<rfloor> \<le> - 1"
    by (simp_all add: floor_le_iff)
  then have "\<bar>\<lfloor>log 2 (x * 2)\<rfloor>\<bar> < \<bar>\<lfloor>log 2 x\<rfloor>\<bar>" by linarith
  then show "(x * 2, x) \<in> measure (\<lambda>x. nat \<bar>\<lfloor>log 2 x\<rfloor>\<bar>)" by simp
qed

declare floor_log2.simps [simp del]

definition ulp_exp :: "real \<Rightarrow> int" where
  "ulp_exp x = max (floor_log2 \<bar>x\<bar>) (- 1022) - 52"

definition fl :: "real \<Rightarrow> real" where
  "fl x = (if x = 0 then 0 else of_int (round_even (x / 2 powi ulp_exp x)) * 2 powi ulp_exp x)"

text \<open>\<^verbatim>\<open>int(x)\<close> of a float cuts the fraction (towards zero).\<close>

definition py_int :: "real \<Rightarrow> int" where
  "py_int x = (if 0 \<le> x then \<lfloor>x\<rfloor> else \<lceil>x\<rceil>)"

text \<open>
  \<^verbatim>\<open>float(v)\<close> of an integer rounds it, and raises \<^verbatim>\<open>OverflowError\<close> when the
  integer is too large for a float.
\<close>

definition py_float :: "int \<Rightarrow> error + real" where
  "py_float v =
     (let f = fl (of_int v) in if 2 ^ 1024 \<le> \<bar>f\<bar> then Inl OverflowError else Inr f)"

section \<open>Samples\<close>

text \<open>A list comprehension stops at the first element whose expression raises.\<close>

fun map_result :: "('a \<Rightarrow> error + 'b) \<Rightarrow> 'a list \<Rightarrow> error + 'b list" where
  "map_result f [] = Inr []"
| "map_result f (x # xs) =
     and_then (f x) (\<lambda>y. and_then (map_result f xs) (\<lambda>ys. Inr (y # ys)))"

text \<open>
  The float result of an operation whose exact result is \<open>x\<close>: rounded, and an infinity
  when the rounded result is too large.
\<close>

definition round_float :: "real \<Rightarrow> pyfloat" where
  "round_float x =
     (let p = fl x
      in if 2 ^ 1024 \<le> p then PosInf else if p \<le> - (2 ^ 1024) then NegInf else Finite p)"

text \<open>
  \<^verbatim>\<open>x * m\<close> of a float and an integer: the integer is converted to a float first (the
  only integer of the program here is \<^verbatim>\<open>MAX_SAMPLE_VALUE\<close>, which is a float exactly).
  An infinity times zero and every product of NaN are NaN.
\<close>

fun float_mul_int :: "pyfloat \<Rightarrow> int \<Rightarrow> pyfloat" where
  "float_mul_int (Finite x) m = round_float (x * of_int m)"
| "float_mul_int PosInf m = (if 0 < m then PosInf else if m < 0 then NegInf else NaN)"
| "float_mul_int NegInf m = (if 0 < m then NegInf else if m < 0 then PosInf else NaN)"
| "float_mul_int NaN m = NaN"

text \<open>
  \<^verbatim>\<open>int(x)\<close> of a float: \<^verbatim>\<open>OverflowError\<close> for an infinity, \<^verbatim>\<open>ValueError\<close> for NaN.
\<close>

fun int_of_float :: "pyfloat \<Rightarrow> error + int" where
  "int_of_float (Finite x) = Inr (py_int x)"
| "int_of_float PosInf = Inl OverflowError"
| "int_of_float NegInf = Inl OverflowError"
| "int_of_float NaN = Inl ValueError"

text \<open>\<^verbatim>\<open>int(sample * MAX_SAMPLE_VALUE)\<close>.\<close>

definition int_of_sample :: "pyfloat \<Rightarrow> error + int" where
  "int_of_sample sample = int_of_float (float_mul_int sample MAX_SAMPLE_VALUE)"

definition convert_to_bytes :: "pyfloat list \<Rightarrow> error + byte list" where
  "convert_to_bytes samples =
     and_then (map_result int_of_sample samples) (\<lambda>int_samples.
       pack (replicate (length samples) Fmt_h) (map VInt int_samples))"

text \<open>
  \<^verbatim>\<open>float(value) / MAX_SAMPLE_VALUE\<close>: the quotient of a finite float by 32767 is a
  finite float, given as the real number it is.
\<close>

definition sample_of_int :: "int \<Rightarrow> error + real" where
  "sample_of_int v = and_then (py_float v) (\<lambda>f. Inr (fl (f / of_int MAX_SAMPLE_VALUE)))"

definition convert_to_samples :: "int list \<Rightarrow> error + real list" where
  "convert_to_samples sample_bytes = map_result sample_of_int sample_bytes"

text \<open>The integers that a field of format \<^verbatim>\<open>h\<close> holds.\<close>

definition int16 :: "int \<Rightarrow> bool" where
  "int16 v = (- 32768 \<le> v \<and> v \<le> 32767)"

section \<open>Files\<close>

text \<open>
  A file is the list of its bytes. \<^verbatim>\<open>write_wave_file\<close> is modelled by the bytes it
  writes: both packings are done before the file is opened, so an exception there
  writes nothing. \<^verbatim>\<open>read_wave_file\<close> is modelled on the bytes of the file it opens;
  \<^verbatim>\<open>in_file.read(n)\<close> returns the next \<open>n\<close> bytes, or fewer at the end of the file.
  The size \<open>data_size\<close> is unpacked from an unsigned field, so the number of samples
  and the number of bytes to read are not negative. Errors of the file system are
  outside the model.
\<close>

definition write_wave_file :: "pyfloat list \<Rightarrow> error + byte list" where
  "write_wave_file samples =
     (let headers = create_headers (int (length samples))
      in and_then (pack WAVE_FILE_HEADERS_STRUCT (vals_of_headers headers)) (\<lambda>headers_bytes.
         and_then (convert_to_bytes samples) (\<lambda>data_bytes.
           Inr (headers_bytes @ data_bytes))))"

text \<open>The values unpacked with a format of \<^verbatim>\<open>h\<close> fields are integers.\<close>

fun the_int :: "val \<Rightarrow> error + int" where
  "the_int (VInt v) = Inr v"
| "the_int (VBytes bs) = Inl TypeError"

text \<open>
  The first step of \<^verbatim>\<open>read_wave_file\<close>: it reads the bytes of the headers, as many as
  the format has, and unpacks them.
\<close>

definition parse_headers :: "byte list \<Rightarrow> error + WaveFileHeaders" where
  "parse_headers file =
     (let header_data = take (calcsize WAVE_FILE_HEADERS_STRUCT) file
      in and_then (unpack WAVE_FILE_HEADERS_STRUCT header_data) headers_of_vals)"

definition read_wave_file :: "byte list \<Rightarrow> error + (WaveFileHeaders \<times> real list)" where
  "read_wave_file file =
     and_then (parse_headers file) (\<lambda>header_data.
       let sample_count = data_size header_data div 2;
           raw_bytes = take (nat (sample_count * 2))
                         (drop (calcsize WAVE_FILE_HEADERS_STRUCT) file)
       in and_then (unpack (replicate (nat sample_count) Fmt_h) raw_bytes) (\<lambda>vals.
          and_then (map_result the_int vals) (\<lambda>sample_bytes.
          and_then (convert_to_samples sample_bytes) (\<lambda>samples.
            Inr (header_data, samples)))))"

section \<open>Channels\<close>

text \<open>
  \<^verbatim>\<open>zip(*channels)\<close> yields the tuple of the next elements of all channels until one
  of them is exhausted; with no channel at all it yields nothing.
\<close>

function zip_star :: "'a list list \<Rightarrow> 'a list list" where
  "zip_star xss =
     (if xss = [] \<or> [] \<in> set xss then [] else map hd xss # zip_star (map tl xss))"
  by pat_completeness auto
termination
proof (relation "measure (\<lambda>xss. length (hd xss))")
  show "wf (measure (\<lambda>xss. length (hd xss)))" by simp
next
  fix xss :: "'a list list"
  assume "\<not> (xss = [] \<or> [] \<in> set xss)"
  then have "xss \<noteq> []" and "hd xss \<noteq> []" by (cases xss; auto)+
  then show "(map tl xss, xss) \<in> measure (\<lambda>xss. length (hd xss))"
    by (simp add: hd_map)
qed

definition merge_channels :: "'a list list \<Rightarrow> 'a list" where
  "merge_channels channels = concat (zip_star channels)"

text \<open>
  \<^verbatim>\<open>len(samples) // num_channels\<close> raises \<^verbatim>\<open>ZeroDivisionError\<close> for no channel;
  a range up to a negative number is empty. The parameter \<^verbatim>\<open>num_channels\<close> is written
  \<open>channel_count\<close>, since \<open>num_channels\<close> is a field of the headers. The index
  \<open>n * i + j\<close> of the inner loop is below the length of the samples (lemma
  \<open>separate_index_in_range\<close>).
\<close>

definition separate_channels :: "'a list \<Rightarrow> int \<Rightarrow> error + 'a list list" where
  "separate_channels samples channel_count =
     (if channel_count = 0 then Inl ZeroDivisionError
      else if channel_count < 0 then Inr []
      else let n = nat channel_count
           in Inr (fold (\<lambda>i final_list.
                      fold (\<lambda>j final_list.
                              final_list[j := final_list ! j @ [samples ! (n * i + j)]])
                        [0..<n] final_list)
                    [0..<length samples div n] (replicate n [])))"

section \<open>Facts about the constants and the headers\<close>

lemma calcsize_WAVE_FILE_HEADERS_STRUCT: "calcsize WAVE_FILE_HEADERS_STRUCT = 44"
  by (simp add: calcsize_def WAVE_FILE_HEADERS_STRUCT_def RIFF_HEADER_STRUCT_def
      FORMAT_HEADER_STRUCT_def DATA_HEADER_STRUCT_def)

lemma calcsize_FORMAT_HEADER_STRUCT: "calcsize FORMAT_HEADER_STRUCT = 24"
  by (simp add: calcsize_def FORMAT_HEADER_STRUCT_def)

lemma SAMPLE_WIDTH_eq: "SAMPLE_WIDTH = 2"
  by (simp add: SAMPLE_WIDTH_def SAMPLE_BITS_def)

lemma MAX_SAMPLE_VALUE_eq: "MAX_SAMPLE_VALUE = 32767"
  by (simp add: MAX_SAMPLE_VALUE_def SAMPLE_BITS_def)

lemma create_headers_eq:
  "create_headers n =
     \<lparr> riff_id = b_RIFF, file_size = 36 + 2 * n, wave = b_WAVE, fmt_id = b_fmt,
       fmt_size = 16, wav_type = 1, num_channels = 2, sampling_freq = 44100,
       bytes_per_second = 88200, bytes_per_sample = 2, sample_bits = 16,
       data_id = b_data, data_size = 2 * n \<rparr>"
  by (simp add: create_headers_def Let_def calcsize_WAVE_FILE_HEADERS_STRUCT
      calcsize_FORMAT_HEADER_STRUCT SAMPLE_WIDTH_eq SAMPLING_FREQ_def SAMPLE_BITS_def)


section \<open>Facts about rounding\<close>

lemma round_even_of_int: "round_even (of_int n) = n"
  by (simp add: round_even_def)

lemma round_even_error: "\<bar>of_int (round_even y) - y\<bar> \<le> 1 / 2"
  unfolding round_even_def Let_def by (auto simp: abs_le_iff; linarith)

lemma round_even_cases:
  "round_even y = \<lfloor>y\<rfloor> \<or> round_even y = \<lfloor>y\<rfloor> + 1"
  unfolding round_even_def Let_def by auto

lemma round_even_ge: "of_int m \<le> y \<Longrightarrow> m \<le> round_even y"
proof -
  assume "of_int m \<le> y"
  then have "m \<le> \<lfloor>y\<rfloor>" by (simp add: le_floor_iff)
  then show ?thesis using round_even_cases [of y] by auto
qed

lemma round_even_le: "y \<le> of_int m \<Longrightarrow> round_even y \<le> m"
proof -
  assume a: "y \<le> of_int m"
  show ?thesis
  proof (cases "y = of_int m")
    case True
    then show ?thesis by (simp add: round_even_of_int)
  next
    case False
    with a have "y < of_int m" by simp
    then have "\<lfloor>y\<rfloor> < m" by (simp add: floor_less_iff)
    then show ?thesis using round_even_cases [of y] by auto
  qed
qed

lemma round_even_minus: "round_even (- y) = - round_even y"
proof (cases "y = of_int \<lfloor>y\<rfloor>")
  case True
  then obtain n :: int where "y = of_int n" ..
  then have "- y = of_int (- n)" by simp
  then show ?thesis using \<open>y = of_int n\<close> round_even_of_int by metis
next
  case False
  then have "of_int \<lfloor>y\<rfloor> < y" using of_int_floor_le [of y] by linarith
  then have c: "\<lceil>y\<rceil> = \<lfloor>y\<rfloor> + 1" by (simp add: ceiling_eq)
  have f: "\<lfloor>- y\<rfloor> = - \<lfloor>y\<rfloor> - 1" using c by (simp add: floor_minus)
  show ?thesis
    unfolding round_even_def Let_def f by (auto simp: field_simps)
qed


lemma floor_log2_eq: "0 < x \<Longrightarrow> floor_log2 x = \<lfloor>log 2 x\<rfloor>"
proof (induction x rule: floor_log2.induct)
  case (1 x)
  show ?case
  proof (cases "2 \<le> x")
    case True
    then have "floor_log2 (x / 2) = \<lfloor>log 2 (x / 2)\<rfloor>" using 1 by simp
    moreover have "log 2 (x / 2) = log 2 x - 1" using True by (simp add: log_divide)
    ultimately show ?thesis using True by (subst floor_log2.simps) simp
  next
    case False
    show ?thesis
    proof (cases "x < 1")
      case True
      then have "floor_log2 (x * 2) = \<lfloor>log 2 (x * 2)\<rfloor>" using 1 False by simp
      moreover have "log 2 (x * 2) = log 2 x + 1" using "1.prems" by (simp add: log_mult)
      ultimately show ?thesis using True "1.prems" by (subst floor_log2.simps) simp
    next
      case b: False
      then have "0 \<le> log 2 x" and "log 2 x < 1" using False by (simp_all add: log_less_iff)
      then have "\<lfloor>log 2 x\<rfloor> = 0" by linarith
      then show ?thesis using False b "1.prems" by (subst floor_log2.simps) simp
    qed
  qed
qed

lemma log2_less_powi: "0 < x \<Longrightarrow> x < 2 powi (k + 1) \<Longrightarrow> \<lfloor>log 2 x\<rfloor> \<le> k"
proof -
  assume x: "0 < x" and b: "x < 2 powi (k + 1)"
  have h: "(2::real) powr real_of_int (k + 1) = 2 powi (k + 1)"
    by (rule powr_real_of_int') simp_all
  have "x < 2 powr real_of_int (k + 1)" using b by (simp only: h)
  then have "log 2 x < real_of_int (k + 1)" using x by (simp add: log_less_iff)
  then have "\<lfloor>log 2 x\<rfloor> < k + 1" by (simp only: floor_less_iff)
  then show ?thesis by simp
qed

lemma log2_ge_powi: "2 powi k \<le> x \<Longrightarrow> k \<le> \<lfloor>log 2 x\<rfloor>"
proof -
  assume b: "2 powi k \<le> x"
  have p: "(0::real) < 2 powi k" by simp
  with b have x: "0 < x" by linarith
  have h: "(2::real) powr real_of_int k = 2 powi k"
    by (rule powr_real_of_int') simp_all
  have "2 powr real_of_int k \<le> x" using b by (simp only: h)
  then have "real_of_int k \<le> log 2 x" using x by (simp add: le_log_iff)
  then show ?thesis by (simp add: le_floor_iff)
qed

lemma ulp_exp_le:
  "x \<noteq> 0 \<Longrightarrow> \<bar>x\<bar> < 2 powi (k + 1) \<Longrightarrow> - 1022 \<le> k \<Longrightarrow> ulp_exp x \<le> k - 52"
  using log2_less_powi [of "\<bar>x\<bar>" k] by (simp add: ulp_exp_def floor_log2_eq)

lemma ulp_exp_ge: "2 powi k \<le> \<bar>x\<bar> \<Longrightarrow> k - 52 \<le> ulp_exp x"
proof -
  assume a: "2 powi k \<le> \<bar>x\<bar>"
  have "(0::real) < 2 powi k" by simp
  with a have "0 < \<bar>x\<bar>" by linarith
  then show ?thesis using log2_ge_powi [OF a] by (simp add: ulp_exp_def floor_log2_eq)
qed

lemma ulp_exp_min: "- 1074 \<le> ulp_exp x"
  by (simp add: ulp_exp_def)

lemma fl_eq: "fl x = of_int (round_even (x / 2 powi ulp_exp x)) * 2 powi ulp_exp x"
  using round_even_of_int [of 0] by (simp add: fl_def)

lemma fl_error_ulp: "\<bar>fl x - x\<bar> \<le> 2 powi ulp_exp x / 2"
proof -
  define u :: real where "u = 2 powi ulp_exp x"
  have u: "0 < u" by (simp add: u_def)
  define r :: real where "r = of_int (round_even (x / u))"
  have "fl x - x = (r - x / u) * u"
    using u by (simp add: fl_eq [of x] u_def r_def field_simps)
  then have "\<bar>fl x - x\<bar> = \<bar>r - x / u\<bar> * u"
    using u by (simp add: abs_mult)
  also have "\<dots> \<le> 1 / 2 * u"
    using round_even_error [of "x / u"] u by (intro mult_right_mono) (auto simp: r_def)
  finally show ?thesis by (simp add: u_def)
qed

lemma fl_error:
  assumes "\<bar>x\<bar> < 2 powi (k + 1)" and "- 1022 \<le> k"
  shows "\<bar>fl x - x\<bar> \<le> 2 powi (k - 53)"
proof (cases "x = 0")
  case True
  then show ?thesis by (simp add: fl_def)
next
  case False
  then have "ulp_exp x \<le> k - 52" using assms by (rule ulp_exp_le)
  then have "(2::real) powi ulp_exp x \<le> 2 powi (k - 52)"
    by (intro power_int_increasing) auto
  moreover have "(2::real) powi (k - 52) = 2 * 2 powi (k - 53)"
    using power_int_add_1' [of "2::real" "k - 53"] by simp
  ultimately show ?thesis using fl_error_ulp [of x] by linarith
qed

lemma fl_ge_mult: "of_int M * 2 powi ulp_exp x \<le> x \<Longrightarrow> of_int M * 2 powi ulp_exp x \<le> fl x"
proof -
  assume a: "of_int M * 2 powi ulp_exp x \<le> x"
  have u: "(0::real) < 2 powi ulp_exp x" by simp
  from a u have "of_int M \<le> x / 2 powi ulp_exp x" by (simp add: pos_le_divide_eq)
  then have "M \<le> round_even (x / 2 powi ulp_exp x)" by (rule round_even_ge)
  then have "real_of_int M \<le> of_int (round_even (x / 2 powi ulp_exp x))" by simp
  then show ?thesis using u by (simp add: fl_eq [of x])
qed

lemma fl_le_mult: "x \<le> of_int M * 2 powi ulp_exp x \<Longrightarrow> fl x \<le> of_int M * 2 powi ulp_exp x"
proof -
  assume a: "x \<le> of_int M * 2 powi ulp_exp x"
  have u: "(0::real) < 2 powi ulp_exp x" by simp
  from a u have "x / 2 powi ulp_exp x \<le> of_int M" by (simp add: pos_divide_le_eq)
  then have "round_even (x / 2 powi ulp_exp x) \<le> M" by (rule round_even_le)
  then have "real_of_int (round_even (x / 2 powi ulp_exp x)) \<le> of_int M" by simp
  then show ?thesis using u by (simp add: fl_eq [of x])
qed

lemma fl_less_mult:
  "fl x < of_int M * 2 powi ulp_exp x \<Longrightarrow> fl x \<le> of_int M * 2 powi ulp_exp x - 2 powi ulp_exp x"
proof -
  assume a: "fl x < of_int M * 2 powi ulp_exp x"
  define r where "r = round_even (x / 2 powi ulp_exp x)"
  have u: "(0::real) < 2 powi ulp_exp x" by simp
  have f: "fl x = of_int r * 2 powi ulp_exp x" by (simp add: fl_eq [of x] r_def)
  with a u have "real_of_int r < of_int M" by simp
  then have "r \<le> M - 1" by simp
  then have "real_of_int r \<le> of_int (M - 1)" by (simp only: of_int_le_iff)
  then have "of_int r * 2 powi ulp_exp x \<le> real_of_int (M - 1) * 2 powi ulp_exp x"
    using u by (intro mult_right_mono) auto
  then show ?thesis by (simp add: f algebra_simps)
qed

lemma int_mult_ulp:
  "e \<le> 0 \<Longrightarrow> real_of_int m = of_int (m * 2 ^ nat (- e)) * 2 powi e"
  by (simp add: power_int_def flip: power_mult_distrib)


lemma ulp_exp_nonpos: "x \<noteq> 0 \<Longrightarrow> \<bar>x\<bar> < 2 ^ 53 \<Longrightarrow> ulp_exp x \<le> 0"
  using ulp_exp_le [of x 52] by simp

lemma fl_0: "fl 0 = 0"
  by (simp add: fl_def)

lemma fl_minus: "fl (- x) = - fl x"
proof -
  have "ulp_exp (- x) = ulp_exp x" by (simp add: ulp_exp_def)
  then show ?thesis
    using round_even_minus [of "x / 2 powi ulp_exp x"] by (simp add: fl_eq [of "- x"] fl_eq [of x])
qed

lemma fl_ge_int:
  assumes "\<bar>x\<bar> < 2 ^ 53" and "of_int m \<le> x"
  shows "of_int m \<le> fl x"
proof (cases "x = 0")
  case True
  then show ?thesis using assms by (simp add: fl_0)
next
  case False
  then have e: "ulp_exp x \<le> 0" using assms(1) by (rule ulp_exp_nonpos)
  show ?thesis
    using fl_ge_mult [of "m * 2 ^ nat (- ulp_exp x)" x] assms(2)
    by (simp only: int_mult_ulp [OF e, symmetric])
qed

lemma fl_le_int:
  assumes "\<bar>x\<bar> < 2 ^ 53" and "x \<le> of_int m"
  shows "fl x \<le> of_int m"
proof (cases "x = 0")
  case True
  then show ?thesis using assms by (simp add: fl_0)
next
  case False
  then have e: "ulp_exp x \<le> 0" using assms(1) by (rule ulp_exp_nonpos)
  show ?thesis
    using fl_le_mult [of x "m * 2 ^ nat (- ulp_exp x)"] assms(2)
    by (simp only: int_mult_ulp [OF e, symmetric])
qed

lemma fl_less_int:
  assumes "x \<noteq> 0" and "\<bar>x\<bar> < 2 ^ 53" and "fl x < of_int m"
  shows "fl x \<le> of_int m - 2 powi ulp_exp x"
proof -
  have e: "ulp_exp x \<le> 0" using assms(1,2) by (rule ulp_exp_nonpos)
  show ?thesis
    using fl_less_mult [of x "m * 2 ^ nat (- ulp_exp x)"] assms(3)
    by (simp only: int_mult_ulp [OF e, symmetric])
qed

lemma fl_exact:
  assumes "\<bar>m\<bar> < 2 ^ 53" and "- 1074 \<le> e"
  shows "fl (of_int m * 2 powi e) = of_int m * 2 powi e"
proof (cases "m = 0")
  case True
  then show ?thesis by (simp add: fl_0)
next
  case False
  define x :: real where "x = of_int m * 2 powi e"
  have x0: "x \<noteq> 0" using False by (simp add: x_def)
  have "real_of_int \<bar>m\<bar> < 2 ^ 53" using assms(1) by (metis of_int_less_numeral_power_cancel_iff)
  then have "\<bar>x\<bar> < 2 ^ 53 * 2 powi e"
    by (simp add: x_def abs_mult)
  also have "\<dots> = 2 powi (52 + e + 1)"
    using power_int_add [of "2::real" 53 e] by (simp add: add.commute)
  finally have "ulp_exp x \<le> 52 + e - 52" using x0 assms(2) by (intro ulp_exp_le) auto
  then have le: "ulp_exp x \<le> e" by simp
  define d where "d = nat (e - ulp_exp x)"
  define u :: real where "u = 2 powi ulp_exp x"
  have u: "u \<noteq> 0" by (simp add: u_def)
  have "(2::real) powi e = 2 powi (ulp_exp x + int d)" using le by (simp add: d_def)
  also have "\<dots> = u * 2 ^ d" by (simp add: power_int_add u_def)
  finally have xu: "x = of_int (m * 2 ^ d) * u" by (simp add: x_def)
  then have "x / u = of_int (m * 2 ^ d)" using u by simp
  then have "round_even (x / u) = m * 2 ^ d" by (simp only: round_even_of_int)
  then have "fl x = of_int (m * 2 ^ d) * u" by (simp only: fl_eq [of x] u_def)
  then have "fl x = x" using xu by simp
  then show ?thesis by (simp only: x_def)
qed

lemma fl_of_int: "\<bar>m\<bar> < 2 ^ 53 \<Longrightarrow> fl (of_int m) = of_int m"
  using fl_exact [of m 0] by simp


lemma binade:
  assumes "1 \<le> x" and "x < 32768"
  obtains k :: int where "0 \<le> k" and "k \<le> 14" and "2 powi k \<le> x" and "x < 2 powi (k + 1)"
    and "ulp_exp x = k - 52"
proof -
  define k where "k = \<lfloor>log 2 x\<rfloor>"
  have x: "0 < x" using assms by simp
  have "(2::real) powi 0 \<le> x" using assms by simp
  then have k0: "0 \<le> k" unfolding k_def by (rule log2_ge_powi)
  have "x < 2 powi (14 + 1)" using assms by simp
  then have k14: "k \<le> 14" unfolding k_def using x by (intro log2_less_powi)
  have h1: "(2::real) powr real_of_int k = 2 powi k"
    by (rule powr_real_of_int') simp_all
  have h2: "(2::real) powr (real_of_int k + 1) = 2 powi (k + 1)"
    using powr_real_of_int' [of "2::real" "k + 1"] by simp
  have "\<lfloor>log 2 x\<rfloor> = k" by (simp add: k_def)
  then have "2 powr real_of_int k \<le> x \<and> x < 2 powr (real_of_int k + 1)"
    using x by (simp add: floor_log_eq_powr_iff)
  then have b: "2 powi k \<le> x" "x < 2 powi (k + 1)" by (simp_all only: h1 h2)
  have "max k (- 1022) = k" using k0 by simp
  then have "ulp_exp x = k - 52" using x by (simp add: ulp_exp_def k_def floor_log2_eq)
  with k0 k14 b show thesis by (rule that)
qed

lemma quantize_nonneg:
  assumes s0: "0 \<le> s" and s1: "s \<le> 1"
  defines "n \<equiv> \<lfloor>fl (s * 32767)\<rfloor>"
  shows "0 \<le> n \<and> n \<le> 32767 \<and> \<bar>fl (of_int n / 32767) - s\<bar> \<le> 1 / 32767"
proof -
  define x where "x = s * 32767"
  define f where "f = fl x"
  define q :: real where "q = of_int n / 32767"
  define d where "d = fl q"
  have n: "n = \<lfloor>f\<rfloor>" by (simp add: n_def f_def x_def)
  have x0: "0 \<le> x" and x1: "x \<le> 32767" using s0 s1 by (simp_all add: x_def)
  have xs: "s = x / 32767" by (simp add: x_def)
  have xb: "\<bar>x\<bar> < 2 ^ 53" using x0 x1 by simp
  have f0: "0 \<le> f" using fl_ge_int [of x 0] xb x0 by (simp add: f_def)
  have f1: "f \<le> 32767" using fl_le_int [of x 32767] xb x1 by (simp add: f_def)
  have n0: "0 \<le> n" using f0 by (simp add: n)
  have n1: "n \<le> 32767" using f1 by (simp add: n floor_le_iff)
  have nf: "of_int n \<le> f" and fn: "f < of_int n + 1" by (simp_all add: n)
  have q0: "0 \<le> q" and q1: "q \<le> 1" using n0 n1 by (simp_all add: q_def)
  have e1: "\<bar>f - x\<bar> \<le> 2 powi (14 - 53)"
    unfolding f_def using x0 x1 by (intro fl_error) auto
  have e2: "\<bar>d - q\<bar> \<le> 2 powi (0 - 53)"
    unfolding d_def using q0 q1 by (intro fl_error) auto
  have up: "d - s \<le> 1 / 32767"
  proof -
    have "of_int n - x \<le> 2 powi (14 - 53)" using nf e1 by linarith
    then have "q - s \<le> 2 powi (14 - 53) / 32767" by (simp add: q_def xs field_simps)
    moreover have "d - q \<le> 2 powi (0 - 53)" using e2 by linarith
    ultimately show ?thesis by simp
  qed
  have low: "s - d \<le> 1 / 32767"
  proof (cases "x \<le> of_int n")
    case True
    then have "s \<le> q" by (simp add: q_def xs field_simps)
    moreover have "q - d \<le> 2 powi (0 - 53)" using e2 by linarith
    ultimately show ?thesis by simp
  next
    case False
    then have nx: "of_int n < x" by simp
    show ?thesis
    proof (cases "n = 0")
      case True
      have "x < 1"
      proof (rule ccontr)
        assume "\<not> x < 1"
        then have "of_int 1 \<le> x" by simp
        then have "of_int 1 \<le> f" unfolding f_def using xb by (intro fl_ge_int)
        then show False using fn True by simp
      qed
      moreover have "d = 0" using True by (simp add: d_def q_def fl_0)
      ultimately show ?thesis by (simp add: xs)
    next
      case False
      then have n1': "1 \<le> n" using n0 by simp
      then have "1 \<le> real_of_int n" by simp
      then have x1': "1 \<le> x" using nx by linarith
      obtain k :: int where k0: "0 \<le> k" and k14: "k \<le> 14" and kl: "2 powi k \<le> x"
        and ku: "x < 2 powi (k + 1)" and ue: "ulp_exp x = k - 52"
        using x1' x1 by (elim binade [of x]) auto
      define w :: real where "w = 2 powi (k - 68)"
      have w: "0 < w" by (simp add: w_def)
      have p52: "(2::real) powi (k - 52) = 2 ^ 16 * w"
        using power_int_add [of "2::real" 16 "k - 68"] by (simp add: w_def)
      have p14: "(2::real) powi (k - 14) = 2 ^ 54 * w"
        using power_int_add [of "2::real" 54 "k - 68"] by (simp add: w_def)
      have p1: "(2::real) powi (k + 1) = 2 ^ 69 * w"
        using power_int_add [of "2::real" 69 "k - 68"] by (simp add: w_def add.commute)
      have x_ne: "x \<noteq> 0" using x1' by simp
      have "f < of_int (n + 1)" using fn by simp
      then have "f \<le> of_int (n + 1) - 2 powi ulp_exp x"
        unfolding f_def using x_ne xb by (intro fl_less_int)
      then have fu: "f \<le> of_int n + 1 - 2 ^ 16 * w" by (simp add: ue p52)
      have "\<bar>f - x\<bar> \<le> 2 powi ulp_exp x / 2" unfolding f_def by (rule fl_error_ulp)
      then have "x \<le> f + 2 ^ 16 * w / 2" by (simp add: ue p52 abs_le_iff)
      with fu have xn: "x - of_int n \<le> 1 - 2 ^ 15 * w" by simp
      have le1: "(2::real) powi (k - 14) \<le> 2 powi 0"
        using k14 by (intro power_int_increasing) auto
      have "real_of_int n < 2 powi (k + 1)" using nx ku by linarith
      also have "\<dots> = 2 ^ nat (k + 1)" using k0 by (simp add: power_int_def)
      finally have "real_of_int n < of_int (2 ^ nat (k + 1))" by simp
      then have "n < 2 ^ nat (k + 1)" by (simp only: of_int_less_iff)
      then have "n \<le> 2 ^ nat (k + 1) - 1" by simp
      then have "real_of_int n \<le> of_int (2 ^ nat (k + 1) - 1)" by (simp only: of_int_le_iff)
      also have "\<dots> = 2 powi (k + 1) - 1" using k0 by (simp add: power_int_def)
      finally have nk: "real_of_int n \<le> 2 ^ 69 * w - 1" by (simp add: p1)
      have qk: "q < 2 powi (k - 15 + 1)"
      proof (cases "k = 14")
        case True
        have "real_of_int n < 32767" using nx x1 by linarith
        moreover have "(2::real) powi (k - 15 + 1) = 1" using True by simp
        ultimately show ?thesis by (simp add: q_def)
      next
        case False
        then have "k - 14 \<le> - 1" using k14 by simp
        then have "(2::real) powi (k - 14) \<le> 2 powi (- 1)"
          by (intro power_int_increasing) auto
        then have "2 ^ 54 * w \<le> 1 / 2" by (simp add: p14)
        then have "real_of_int n < 32767 * (2 ^ 54 * w)" using nk by simp
        then show ?thesis by (simp add: q_def p14)
      qed
      have "\<bar>d - q\<bar> \<le> 2 powi (k - 15 - 53)"
        unfolding d_def using qk q0 k0 by (intro fl_error) auto
      then have "q - d \<le> w" by (simp add: w_def abs_le_iff)
      then have "32767 * (q - d) \<le> 32767 * w" by simp
      with xn have "x - of_int n + 32767 * (q - d) \<le> 1" using w by simp
      then show ?thesis by (simp add: q_def xs field_simps)
    qed
  qed
  from up low have "\<bar>d - s\<bar> \<le> 1 / 32767" by linarith
  with n0 n1 show ?thesis by (simp add: d_def q_def)
qed



section \<open>Facts about packing\<close>

lemma le_bytes_2: "le_bytes 2 v = [word_of_int v, word_of_int (v div 256)]"
  by (simp add: le_bytes_def upt_rec numeral_2_eq_2)

lemma le_bytes_4:
  "le_bytes 4 v =
     [word_of_int v, word_of_int (v div 256), word_of_int (v div 65536),
      word_of_int (v div 16777216)]"
  by (simp add: le_bytes_def upt_rec numeral_eq_Suc)

lemmas struct_defs = WAVE_FILE_HEADERS_STRUCT_def RIFF_HEADER_STRUCT_def
  FORMAT_HEADER_STRUCT_def DATA_HEADER_STRUCT_def

lemmas tag_defs = b_RIFF_def b_WAVE_def b_fmt_def b_data_def

lemma uint_byte: "uint (word_of_int v :: byte) = v mod 256"
  by (simp add: uint_word_of_int_eq take_bit_eq_mod)

lemma le_bytes_Suc: "le_bytes (Suc n) v = word_of_int v # le_bytes n (v div 256)"
proof -
  have "[0..<Suc n] = 0 # map Suc [0..<n]"
    by (simp add: map_Suc_upt upt_conv_Cons)
  moreover have "v div 256 ^ Suc k = v div 256 div 256 ^ k" for k
    using zdiv_zmult2_eq [of "256 ^ k" v 256] by simp
  ultimately show ?thesis by (simp add: le_bytes_def comp_def)
qed

lemma from_le_le_bytes: "from_le (le_bytes n v) = v mod 256 ^ n"
proof (induction n arbitrary: v)
  case 0
  then show ?case by (simp add: le_bytes_def)
next
  case (Suc n)
  have "v mod (256 * 256 ^ n) = 256 * (v div 256 mod 256 ^ n) + v mod 256"
    by (rule zmod_zmult2_eq) simp
  then show ?case by (simp add: le_bytes_Suc Suc uint_byte)
qed

lemma from_le_2: "from_le (le_bytes 2 v) = v mod 65536"
  using from_le_le_bytes [of 2 v] by simp

lemma from_le_4: "from_le (le_bytes 4 v) = v mod 4294967296"
  using from_le_le_bytes [of 4 v] by simp

lemma unpack_h_le_bytes: "int16 v \<Longrightarrow> unpack_field Fmt_h (le_bytes 2 v) = VInt v"
proof (cases "0 \<le> v")
  case True
  assume "int16 v"
  with True have "v mod 65536 = v" by (simp add: int16_def)
  then show ?thesis using \<open>int16 v\<close> by (simp add: from_le_2 int16_def)
next
  case False
  assume "int16 v"
  have "(v + 65536) mod 65536 = v + 65536"
    using False \<open>int16 v\<close> by (intro mod_pos_pos_trivial) (auto simp: int16_def)
  moreover have "(v + 65536) mod 65536 = v mod 65536" by simp
  ultimately have "v mod 65536 = v + 65536" by simp
  then show ?thesis using False \<open>int16 v\<close> by (simp add: from_le_2 int16_def)
qed

lemma pack_h_list:
  "pack (replicate (length ints) Fmt_h) (map VInt ints) =
     (if list_all int16 ints then Inr (concat (map (le_bytes 2) ints)) else Inl StructError)"
  by (induction ints) (auto simp: int16_def)

lemma calcsize_replicate_h: "calcsize (replicate n Fmt_h) = 2 * n"
  by (induction n) (simp_all add: calcsize_def)

lemma length_le_bytes: "length (le_bytes k v) = k"
  by (simp add: le_bytes_def)

lemma unpack_fields_h_list:
  "list_all int16 ints \<Longrightarrow>
     unpack_fields (replicate (length ints) Fmt_h) (concat (map (le_bytes 2) ints)) = map VInt ints"
  by (induction ints) (simp_all add: length_le_bytes unpack_h_le_bytes del: unpack_field.simps)

lemma unpack_h_list:
  "list_all int16 ints \<Longrightarrow>
     unpack (replicate (length ints) Fmt_h) (concat (map (le_bytes 2) ints)) = Inr (map VInt ints)"
  by (simp add: unpack_def calcsize_replicate_h unpack_fields_h_list length_concat comp_def
      length_le_bytes sum_list_triv)

lemma map_result_the_int: "map_result the_int (map VInt ints) = Inr ints"
  by (induction ints) simp_all

lemma map_result_Inr:
  "map_result f xs = Inr ys \<longleftrightarrow> list_all2 (\<lambda>x y. f x = Inr y) xs ys"
proof (induction xs arbitrary: ys)
  case Nil
  then show ?case by auto
next
  case (Cons x xs)
  show ?case
  proof (cases "f x")
    case (Inl e)
    then show ?thesis by (auto simp: list_all2_Cons1)
  next
    case fx: (Inr y)
    show ?thesis
    proof (cases "map_result f xs")
      case (Inl e)
      then have "\<not> list_all2 (\<lambda>x y. f x = Inr y) xs zs" for zs
        using Cons.IH [of zs] by simp
      then show ?thesis using fx Inl by (auto simp: list_all2_Cons1)
    next
      case (Inr zs)
      then have "list_all2 (\<lambda>x y. f x = Inr y) xs zs" using Cons.IH [of zs] by simp
      then show ?thesis using fx Inr by (auto simp: list_all2_Cons1 Cons.IH [symmetric])
    qed
  qed
qed


lemma pack_create_headers:
  "pack WAVE_FILE_HEADERS_STRUCT (vals_of_headers (create_headers n)) =
     (if 0 \<le> n \<and> n \<le> 2147483629
      then Inr (b_RIFF @ le_bytes 4 (36 + 2 * n) @ b_WAVE @ b_fmt @ le_bytes 4 16 @
                le_bytes 2 1 @ le_bytes 2 2 @ le_bytes 4 44100 @ le_bytes 4 88200 @
                le_bytes 2 2 @ le_bytes 2 16 @ b_data @ le_bytes 4 (2 * n))
      else Inl StructError)"
  by (simp add: struct_defs vals_of_headers_def create_headers_eq tag_defs)

lemma unpack_I_le_bytes:
  "0 \<le> v \<Longrightarrow> v \<le> 4294967295 \<Longrightarrow> unpack_field Fmt_I (le_bytes 4 v) = VInt v"
  by (simp add: from_le_4)

lemma unpack_H_le_bytes:
  "0 \<le> v \<Longrightarrow> v \<le> 65535 \<Longrightarrow> unpack_field Fmt_H (le_bytes 2 v) = VInt v"
  by (simp add: from_le_2)

lemma parse_packed_headers:
  assumes "pack WAVE_FILE_HEADERS_STRUCT (vals_of_headers (create_headers n)) = Inr hb"
  shows "parse_headers (hb @ rest) = Inr (create_headers n) \<and> length hb = 44 \<and>
    take 2 (drop 22 hb) = [2, 0]"
proof -
  have r: "0 \<le> n" "n \<le> 2147483629"
    using assms by (auto simp: pack_create_headers split: if_splits)
  have hb: "hb = b_RIFF @ le_bytes 4 (36 + 2 * n) @ b_WAVE @ b_fmt @ le_bytes 4 16 @
                le_bytes 2 1 @ le_bytes 2 2 @ le_bytes 4 44100 @ le_bytes 4 88200 @
                le_bytes 2 2 @ le_bytes 2 16 @ b_data @ le_bytes 4 (2 * n)"
    using assms r by (simp add: pack_create_headers)
  have l: "length hb = 44" by (simp add: hb length_le_bytes tag_defs)
  have t: "length b_RIFF = 4" "length b_WAVE = 4" "length b_fmt = 4" "length b_data = 4"
    by (simp_all add: tag_defs)
  have "unpack_fields WAVE_FILE_HEADERS_STRUCT hb = vals_of_headers (create_headers n)"
    using r
    by (simp add: hb struct_defs length_le_bytes t unpack_I_le_bytes unpack_H_le_bytes
        vals_of_headers_def create_headers_eq del: unpack_field.simps(2,3,4))
  then have "unpack WAVE_FILE_HEADERS_STRUCT hb = Inr (vals_of_headers (create_headers n))"
    by (simp add: unpack_def l calcsize_WAVE_FILE_HEADERS_STRUCT)
  moreover have "headers_of_vals (vals_of_headers h) = Inr h" for h
    by (simp add: headers_of_vals_def vals_of_headers_def)
  ultimately have "parse_headers (hb @ rest) = Inr (create_headers n)"
    by (simp add: parse_headers_def calcsize_WAVE_FILE_HEADERS_STRUCT l)
  moreover have "take 2 (drop 22 hb) = [2, 0]"
    by (simp add: hb t length_le_bytes le_bytes_2)
  ultimately show ?thesis using l by simp
qed

section \<open>Facts about the samples\<close>

lemma py_int_minus: "py_int (- x) = - py_int x"
  by (auto simp: py_int_def ceiling_def)

lemma int_of_sample_Finite:
  "int_of_sample (Finite x) =
     (let p = fl (x * of_int MAX_SAMPLE_VALUE)
      in if 2 ^ 1024 \<le> \<bar>p\<bar> then Inl OverflowError else Inr (py_int p))"
proof -
  define p where "p = fl (x * of_int MAX_SAMPLE_VALUE)"
  define c :: real where "c = 2 ^ 1024"
  have "0 < c" by (simp add: c_def)
  then have "c \<le> \<bar>p\<bar> \<longleftrightarrow> c \<le> p \<or> p \<le> - c" by linarith
  then show ?thesis
    by (auto simp: int_of_sample_def round_float_def Let_def p_def [symmetric] c_def [symmetric])
qed

lemma int_of_sample_minus:
  "int_of_sample (Finite s) = Inr n \<Longrightarrow> int_of_sample (Finite (- s)) = Inr (- n)"
  by (auto simp: int_of_sample_Finite Let_def fl_minus py_int_minus split: if_splits)

lemma sample_of_int_small:
  "\<bar>v\<bar> \<le> 32768 \<Longrightarrow> sample_of_int v = Inr (fl (of_int v / 32767))"
proof -
  assume a: "\<bar>v\<bar> \<le> 32768"
  then have "\<bar>v\<bar> < 2 ^ 53" by simp
  then have f: "fl (of_int v) = of_int v" by (rule fl_of_int)
  have "\<bar>real_of_int v\<bar> \<le> 32768" using a by linarith
  moreover have "(32768::real) < 2 ^ 1024" by simp
  ultimately have "\<not> 2 ^ 1024 \<le> \<bar>real_of_int v\<bar>" by linarith
  then show ?thesis by (simp add: sample_of_int_def py_float_def f MAX_SAMPLE_VALUE_eq)
qed

lemma sample_roundtrip_nonneg:
  assumes "0 \<le> s" and "s \<le> 1"
  shows "\<exists>n d. int_of_sample (Finite s) = Inr n \<and> \<bar>n\<bar> \<le> 32767 \<and>
     sample_of_int n = Inr d \<and> \<bar>d - s\<bar> \<le> 1 / 32767"
proof -
  define p where "p = fl (s * 32767)"
  define n where "n = \<lfloor>p\<rfloor>"
  have q: "0 \<le> n \<and> n \<le> 32767 \<and> \<bar>fl (of_int n / 32767) - s\<bar> \<le> 1 / 32767"
    unfolding n_def p_def using assms by (rule quantize_nonneg)
  have b: "\<bar>s * 32767\<bar> < 2 ^ 53" using assms by (simp add: abs_mult)
  have p0: "0 \<le> p" unfolding p_def using fl_ge_int [of "s * 32767" 0] b assms by simp
  have "s * 32767 \<le> of_int 32767" using assms by simp
  then have "p \<le> of_int 32767" unfolding p_def using b by (intro fl_le_int)
  then have "\<bar>p\<bar> \<le> 32767" using p0 by simp
  moreover have "(32767::real) < 2 ^ 1024" by simp
  ultimately have "\<not> 2 ^ 1024 \<le> \<bar>p\<bar>" by linarith
  then have "int_of_sample (Finite s) = Inr n"
    using p0 by (simp add: int_of_sample_Finite MAX_SAMPLE_VALUE_eq p_def [symmetric] py_int_def n_def)
  moreover have "sample_of_int n = Inr (fl (of_int n / 32767))"
    using q by (intro sample_of_int_small) simp
  ultimately show ?thesis using q by auto
qed

lemma sample_roundtrip:
  assumes "- 1 \<le> s" and "s \<le> 1"
  shows "\<exists>n d. int_of_sample (Finite s) = Inr n \<and> \<bar>n\<bar> \<le> 32767 \<and>
     sample_of_int n = Inr d \<and> \<bar>d - s\<bar> \<le> 1 / 32767"
proof (cases "0 \<le> s")
  case True
  then show ?thesis using assms(2) by (rule sample_roundtrip_nonneg)
next
  case False
  then have "0 \<le> - s" and "- s \<le> 1" using assms(1) by simp_all
  then obtain n d where n: "int_of_sample (Finite (- s)) = Inr n" and r: "\<bar>n\<bar> \<le> 32767"
    and d: "sample_of_int n = Inr d" and e: "\<bar>d - (- s)\<bar> \<le> 1 / 32767"
    using sample_roundtrip_nonneg [of "- s"] by blast
  have "int_of_sample (Finite (- (- s))) = Inr (- n)" using n by (rule int_of_sample_minus)
  then have 1: "int_of_sample (Finite s) = Inr (- n)" by simp
  have "d = fl (of_int n / 32767)" using d r sample_of_int_small [of n] by simp
  then have "fl (of_int (- n) / 32767) = - d" using fl_minus [of "of_int n / 32767"] by simp
  then have 2: "sample_of_int (- n) = Inr (- d)" using r sample_of_int_small [of "- n"] by simp
  have "\<bar>- d - s\<bar> = \<bar>d - (- s)\<bar>" by linarith
  then have "\<bar>- d - s\<bar> \<le> 1 / 32767" using e by (simp only:)
  with 1 2 r show ?thesis by (intro exI [of _ "- n"] exI [of _ "- d"]) simp
qed

lemma samples_roundtrip:
  "(\<And>x. x \<in> set s \<Longrightarrow> - 1 \<le> x \<and> x \<le> 1) \<Longrightarrow>
     \<exists>ints out. map_result int_of_sample (map Finite s) = Inr ints \<and> list_all int16 ints \<and>
       length ints = length s \<and> convert_to_samples ints = Inr out \<and>
       list_all2 (\<lambda>d x. \<bar>d - x\<bar> \<le> 1 / 32767) out s"
proof (induction s)
  case Nil
  then show ?case by (simp add: convert_to_samples_def)
next
  case (Cons x s)
  obtain ints out where i: "map_result int_of_sample (map Finite s) = Inr ints" and r: "list_all int16 ints"
    and l: "length ints = length s" and o: "convert_to_samples ints = Inr out"
    and e: "list_all2 (\<lambda>d x. \<bar>d - x\<bar> \<le> 1 / 32767) out s"
    using Cons by force
  have "- 1 \<le> x" and "x \<le> 1" using Cons.prems by simp_all
  then obtain n d where n: "int_of_sample (Finite x) = Inr n" and nr: "\<bar>n\<bar> \<le> 32767"
    and d: "sample_of_int n = Inr d" and de: "\<bar>d - x\<bar> \<le> 1 / 32767"
    using sample_roundtrip [of x] by blast
  have "map_result int_of_sample (map Finite (x # s)) = Inr (n # ints)" using n i by simp
  moreover have "int16 n" using nr by (auto simp: int16_def)
  then have "list_all int16 (n # ints)" using r by simp
  moreover have "convert_to_samples (n # ints) = Inr (d # out)"
    using d o by (simp add: convert_to_samples_def)
  moreover have "list_all2 (\<lambda>d x. \<bar>d - x\<bar> \<le> 1 / 32767) (d # out) (x # s)"
    using de e by simp
  ultimately show ?case using l by (intro exI [of _ "n # ints"] exI [of _ "d # out"]) simp
qed

lemma fl_half_32767: "fl (32767 / 2) = 32767 / 2"
  using fl_exact [of 32767 "- 1"] by simp

lemma int_of_sample_half: "int_of_sample (Finite (1 / 2)) = Inr 16383"
  by (simp add: int_of_sample_Finite MAX_SAMPLE_VALUE_eq fl_half_32767 py_int_def)

lemma replicate_2: "replicate 2 x = [x, x]"
  by (simp add: numeral_2_eq_2)

lemma fl_min_sample: "fl (- (32768 / 32767)) = - (35185445863425 / 35184372088832)"
  by code_simp

lemma int_of_sample_Finite_eq:
  "int_of_sample (Finite x) =
     (if 2 ^ 1024 \<le> \<bar>fl (x * 32767)\<bar> then Inl OverflowError
      else Inr (py_int (fl (x * 32767))))"
  by (simp add: int_of_sample_Finite MAX_SAMPLE_VALUE_eq Let_def)

lemma int_of_sample_not_finite:
  "int_of_sample NaN = Inl ValueError"
  "int_of_sample PosInf = Inl OverflowError"
  "int_of_sample NegInf = Inl OverflowError"
  by (simp_all add: int_of_sample_def MAX_SAMPLE_VALUE_eq)

lemma int_of_sample_Inr:
  "int_of_sample s = Inr n \<longleftrightarrow>
     (\<exists>x. s = Finite x \<and> \<bar>fl (x * 32767)\<bar> < 2 ^ 1024 \<and> n = py_int (fl (x * 32767)))"
  by (cases s) (auto simp: int_of_sample_Finite_eq int_of_sample_not_finite)

lemma int_of_sample_ValueError: "int_of_sample s = Inl ValueError \<longleftrightarrow> s = NaN"
  by (cases s) (auto simp: int_of_sample_Finite_eq int_of_sample_not_finite)

lemma int_of_sample_OverflowError:
  "int_of_sample s = Inl OverflowError \<longleftrightarrow>
     s = PosInf \<or> s = NegInf \<or> (\<exists>x. s = Finite x \<and> 2 ^ 1024 \<le> \<bar>fl (x * 32767)\<bar>)"
  by (cases s) (auto simp: int_of_sample_Finite_eq int_of_sample_not_finite)

lemma int_of_sample_errors:
  "int_of_sample s = Inl e \<Longrightarrow> e = ValueError \<or> e = OverflowError"
  by (cases s) (auto simp: int_of_sample_Finite_eq int_of_sample_not_finite split: if_splits)

lemma int16_no_overflow:
  assumes "int16 (py_int p)"
  shows "\<bar>p\<bar> < 2 ^ 1024"
proof -
  have "\<lfloor>p\<rfloor> \<le> 32767 \<or> p < 0" and "- 32768 \<le> \<lceil>p\<rceil> \<or> 0 \<le> p"
    using assms by (auto simp: int16_def py_int_def split: if_splits)
  then have "p < 32768" and "- 32769 < p" by (auto simp: floor_le_iff le_ceiling_iff)
  then have "\<bar>p\<bar> < 32769" by linarith
  moreover have "(32769::real) < 2 ^ 1024" by simp
  ultimately show ?thesis by linarith
qed

lemma map_result_length: "map_result f xs = Inr ys \<Longrightarrow> length ys = length xs"
  by (simp add: map_result_Inr list_all2_lengthD)

lemma map_result_Inl:
  "map_result f xs = Inl e \<longleftrightarrow>
     (\<exists>pre x rest ys. xs = pre @ x # rest \<and> map_result f pre = Inr ys \<and> f x = Inl e)"
proof (induction xs)
  case Nil
  then show ?case by simp
next
  case (Cons a xs)
  show ?case
  proof (cases "f a")
    case (Inl e')
    show ?thesis
    proof
      assume "map_result f (a # xs) = Inl e"
      then have "f a = Inl e" using Inl by simp
      then have "a # xs = [] @ a # xs \<and> map_result f [] = Inr [] \<and> f a = Inl e" by simp
      then show "\<exists>pre x rest ys. a # xs = pre @ x # rest \<and> map_result f pre = Inr ys \<and> f x = Inl e"
        by blast
    next
      assume "\<exists>pre x rest ys. a # xs = pre @ x # rest \<and> map_result f pre = Inr ys \<and> f x = Inl e"
      then obtain pre x rest ys where p: "a # xs = pre @ x # rest"
        and q: "map_result f pre = Inr ys" and r: "f x = Inl e" by blast
      have "pre = []"
      proof (cases pre)
        case Nil
        then show ?thesis .
      next
        case (Cons b pre')
        then have "b = a" using p by simp
        then show ?thesis using q Cons Inl by simp
      qed
      then have "x = a" using p by simp
      then show "map_result f (a # xs) = Inl e" using r by simp
    qed
  next
    case (Inr y)
    show ?thesis
    proof
      assume "map_result f (a # xs) = Inl e"
      then have "map_result f xs = Inl e"
        using Inr by (cases "map_result f xs") auto
      then obtain pre x rest ys where "xs = pre @ x # rest" and "map_result f pre = Inr ys"
        and "f x = Inl e" using Cons.IH by blast
      then have "a # xs = (a # pre) @ x # rest \<and> map_result f (a # pre) = Inr (y # ys) \<and>
        f x = Inl e" using Inr by simp
      then show "\<exists>pre x rest ys. a # xs = pre @ x # rest \<and> map_result f pre = Inr ys \<and> f x = Inl e"
        by blast
    next
      assume "\<exists>pre x rest ys. a # xs = pre @ x # rest \<and> map_result f pre = Inr ys \<and> f x = Inl e"
      then obtain pre x rest ys where p: "a # xs = pre @ x # rest"
        and q: "map_result f pre = Inr ys" and r: "f x = Inl e" by blast
      obtain pre' where pre: "pre = a # pre'"
        using p r Inr by (cases pre) auto
      then have "xs = pre' @ x # rest" using p by simp
      moreover obtain ys' where "map_result f pre' = Inr ys'"
        using q pre Inr by (cases "map_result f pre'") auto
      ultimately have "map_result f xs = Inl e" using r Cons.IH by blast
      then show "map_result f (a # xs) = Inl e" using Inr by simp
    qed
  qed
qed

lemma map_result_int_of_sample_Inr:
  "map_result int_of_sample samples = Inr ints \<longleftrightarrow>
     (\<exists>xs. samples = map Finite xs \<and> list_all (\<lambda>x. \<bar>fl (x * 32767)\<bar> < 2 ^ 1024) xs \<and>
       ints = map (\<lambda>x. py_int (fl (x * 32767))) xs)"
proof (induction samples arbitrary: ints)
  case Nil
  then show ?case by auto
next
  case (Cons s samples)
  show ?case
  proof
    assume a: "map_result int_of_sample (s # samples) = Inr ints"
    then obtain n where n: "int_of_sample s = Inr n" by (cases "int_of_sample s") auto
    then obtain ns where ns: "map_result int_of_sample samples = Inr ns"
      using a by (cases "map_result int_of_sample samples") auto
    have i: "ints = n # ns" using a n ns by simp
    obtain x where x: "s = Finite x" "\<bar>fl (x * 32767)\<bar> < 2 ^ 1024" "n = py_int (fl (x * 32767))"
      using n by (auto simp: int_of_sample_Inr)
    obtain xs where xs: "samples = map Finite xs"
      "list_all (\<lambda>x. \<bar>fl (x * 32767)\<bar> < 2 ^ 1024) xs" "ns = map (\<lambda>x. py_int (fl (x * 32767))) xs"
      using ns Cons.IH by blast
    have "s # samples = map Finite (x # xs) \<and>
      list_all (\<lambda>x. \<bar>fl (x * 32767)\<bar> < 2 ^ 1024) (x # xs) \<and>
      ints = map (\<lambda>x. py_int (fl (x * 32767))) (x # xs)"
      using x xs i by simp
    then show "\<exists>xs. s # samples = map Finite xs \<and>
      list_all (\<lambda>x. \<bar>fl (x * 32767)\<bar> < 2 ^ 1024) xs \<and> ints = map (\<lambda>x. py_int (fl (x * 32767))) xs"
      by (rule exI)
  next
    assume "\<exists>xs. s # samples = map Finite xs \<and>
      list_all (\<lambda>x. \<bar>fl (x * 32767)\<bar> < 2 ^ 1024) xs \<and> ints = map (\<lambda>x. py_int (fl (x * 32767))) xs"
    then obtain xs where xs0: "s # samples = map Finite xs \<and>
      list_all (\<lambda>x. \<bar>fl (x * 32767)\<bar> < 2 ^ 1024) xs \<and> ints = map (\<lambda>x. py_int (fl (x * 32767))) xs" ..
    note xs = conjunct1 [OF xs0] conjunct1 [OF conjunct2 [OF xs0]] conjunct2 [OF conjunct2 [OF xs0]]
    then obtain x xs' where c: "xs = x # xs'" by (cases xs) auto
    have "int_of_sample s = Inr (py_int (fl (x * 32767)))"
      using xs c by (simp add: int_of_sample_Inr)
    moreover have "map_result int_of_sample samples = Inr (map (\<lambda>x. py_int (fl (x * 32767))) xs')"
      using xs c Cons.IH [of "map (\<lambda>x. py_int (fl (x * 32767))) xs'"] by auto
    ultimately show "map_result int_of_sample (s # samples) = Inr ints"
      using xs c by simp
  qed
qed

lemma convert_to_bytes_cases:
  "convert_to_bytes samples =
     (case map_result int_of_sample samples of
        Inl e \<Rightarrow> Inl e
      | Inr ints \<Rightarrow>
          if list_all int16 ints then Inr (concat (map (le_bytes 2) ints)) else Inl StructError)"
proof (cases "map_result int_of_sample samples")
  case (Inl e)
  then show ?thesis by (simp add: convert_to_bytes_def)
next
  case (Inr ints)
  then have "length samples = length ints" by (simp add: map_result_length)
  then show ?thesis using Inr pack_h_list [of ints] by (simp add: convert_to_bytes_def)
qed

lemma fl_below_minus_one: "fl (- (1073741823 / 32768)) = - (1073741823 / 32768)"
  using fl_exact [of "- 1073741823" "- 15"] by simp

lemma unpack_field_h_int16:
  "length bs = 2 \<Longrightarrow> \<exists>v. unpack_field Fmt_h bs = VInt v \<and> int16 v"
proof -
  assume "length bs = 2"
  then obtain a b where bs: "bs = [a, b]"
    by (cases bs; cases "tl bs") auto
  define u where "u = from_le bs"
  have "uint a < 256" and "uint b < 256" and "0 \<le> uint a" and "0 \<le> uint b"
    using uint_bounded [of a] uint_bounded [of b] by simp_all
  moreover have "u = uint a + 256 * uint b" by (simp add: u_def bs)
  ultimately have "0 \<le> u" and "u < 65536" by linarith+
  then have "int16 (if 32768 \<le> u then u - 65536 else u)" by (simp add: int16_def)
  then show ?thesis unfolding u_def by (simp add: Let_def)
qed

lemma unpack_fields_h_int16:
  "length bs = 2 * k \<Longrightarrow>
     \<exists>ints. unpack_fields (replicate k Fmt_h) bs = map VInt ints \<and> list_all int16 ints \<and>
       length ints = k"
proof (induction k arbitrary: bs)
  case 0
  then show ?case by simp
next
  case (Suc k)
  have "length (take 2 bs) = 2" using Suc.prems by simp
  then obtain v where v: "unpack_field Fmt_h (take 2 bs) = VInt v" "int16 v"
    using unpack_field_h_int16 by blast
  have "length (drop 2 bs) = 2 * k" using Suc.prems by simp
  then obtain ints where i: "unpack_fields (replicate k Fmt_h) (drop 2 bs) = map VInt ints"
    "list_all int16 ints" "length ints = k"
    using Suc.IH by blast
  show ?case
    using v i by (intro exI [of _ "v # ints"]) (simp del: unpack_field.simps)
qed

lemma convert_to_samples_int16:
  "list_all int16 ints \<Longrightarrow>
     convert_to_samples ints = Inr (map (\<lambda>v. fl (of_int v / 32767)) ints)"
proof (induction ints)
  case Nil
  then show ?case by (simp add: convert_to_samples_def)
next
  case (Cons v ints)
  then have "\<bar>v\<bar> \<le> 32768" by (auto simp: int16_def)
  then have "sample_of_int v = Inr (fl (of_int v / 32767))" by (rule sample_of_int_small)
  then show ?case using Cons by (simp add: convert_to_samples_def)
qed

section \<open>Facts about the channels\<close>

declare zip_star.simps [simp del]

lemma zip_star_uniform:
  "xss \<noteq> [] \<Longrightarrow> (\<And>xs. xs \<in> set xss \<Longrightarrow> length xs = L) \<Longrightarrow>
     zip_star xss = map (\<lambda>i. map (\<lambda>xs. xs ! i) xss) [0..<L]"
proof (induction L arbitrary: xss)
  case 0
  then obtain xs where "xs \<in> set xss" by (cases xss) auto
  with 0 have "[] \<in> set xss" by force
  then show ?case by (subst zip_star.simps) simp
next
  case (Suc L)
  have ne: "[] \<notin> set xss" using Suc.prems(2) by force
  have tl_len: "\<And>ys. ys \<in> set (map tl xss) \<Longrightarrow> length ys = L"
    using Suc.prems(2) by auto
  have "map tl xss \<noteq> []" using Suc.prems(1) by simp
  then have ih: "zip_star (map tl xss) = map (\<lambda>i. map (\<lambda>xs. xs ! i) (map tl xss)) [0..<L]"
    using tl_len by (rule Suc.IH)
  have hd: "map hd xss = map (\<lambda>xs. xs ! 0) xss"
    using ne by (intro map_cong refl) (metis hd_conv_nth)
  have tl: "\<And>i. i < L \<Longrightarrow> map (\<lambda>xs. xs ! i) (map tl xss) = map (\<lambda>xs. xs ! Suc i) xss"
    using Suc.prems(2) by (auto simp: nth_tl)
  have "zip_star xss = map hd xss # zip_star (map tl xss)"
    using Suc.prems(1) ne by (subst zip_star.simps) simp
  also have "\<dots> = map (\<lambda>xs. xs ! 0) xss # map (\<lambda>i. map (\<lambda>xs. xs ! Suc i) xss) [0..<L]"
    using tl by (simp add: hd ih)
  also have "\<dots> = map (\<lambda>i. map (\<lambda>xs. xs ! i) xss) (0 # map Suc [0..<L])"
    by (simp add: comp_def)
  also have "0 # map Suc [0..<L] = [0..<Suc L]"
    by (simp add: map_Suc_upt upt_conv_Cons)
  finally show ?case .
qed

lemma concat_uniform_length:
  "(\<And>ys. ys \<in> set yss \<Longrightarrow> length ys = C) \<Longrightarrow> length (concat yss) = length yss * C"
  by (induction yss) auto

lemma concat_uniform_nth:
  "(\<And>ys. ys \<in> set yss \<Longrightarrow> length ys = C) \<Longrightarrow> i < length yss \<Longrightarrow> c < C \<Longrightarrow>
     concat yss ! (i * C + c) = yss ! i ! c"
proof (induction yss arbitrary: i)
  case Nil
  then show ?case by simp
next
  case (Cons ys yss)
  have len: "length ys = C" using Cons.prems(1) by simp
  show ?case
  proof (cases i)
    case 0
    then show ?thesis using Cons.prems(3) len by (simp add: nth_append)
  next
    case (Suc k)
    then have "k < length yss" using Cons.prems(2) by simp
    then have "concat yss ! (k * C + c) = yss ! k ! c"
      using Cons.prems(1,3) by (intro Cons.IH) auto
    then show ?thesis using Suc len by (simp add: nth_append)
  qed
qed

lemma inner_fold:
  "m \<le> n \<Longrightarrow> length xs = n \<Longrightarrow>
     fold (\<lambda>j final_list. final_list[j := final_list ! j @ [f j]]) [0..<m] xs =
     map (\<lambda>j. if j < m then xs ! j @ [f j] else xs ! j) [0..<n]"
proof (induction m)
  case 0
  then show ?case by (auto simp: list_eq_iff_nth_eq)
next
  case (Suc m)
  then have ih: "fold (\<lambda>j final_list. final_list[j := final_list ! j @ [f j]]) [0..<m] xs =
     map (\<lambda>j. if j < m then xs ! j @ [f j] else xs ! j) [0..<n]" by simp
  show ?case
    using Suc.prems by (auto simp: ih list_eq_iff_nth_eq nth_list_update)
qed

lemma outer_fold:
  "fold (\<lambda>i final_list.
      fold (\<lambda>j final_list. final_list[j := final_list ! j @ [g i j]]) [0..<n] final_list)
     [0..<m] (replicate n []) =
   map (\<lambda>j. map (\<lambda>i. g i j) [0..<m]) [0..<n]"
proof (induction m)
  case 0
  then show ?case by (simp add: list_eq_iff_nth_eq)
next
  case (Suc m)
  show ?case
    by (simp add: Suc inner_fold [of n n] list_eq_iff_nth_eq)
qed

lemma separate_channels_eq:
  "0 < n \<Longrightarrow> separate_channels samples (int n) =
     Inr (map (\<lambda>j. map (\<lambda>i. samples ! (n * i + j)) [0..<length samples div n]) [0..<n])"
  by (simp add: separate_channels_def outer_fold)

lemma separate_index_in_range:
  assumes "i < length samples div n" and "j < n"
  shows "n * i + j < length (samples :: 'a list)"
proof -
  have "n * i + j < n * Suc i" using assms(2) by simp
  also have "\<dots> \<le> n * (length samples div n)" using assms(1) by (intro mult_le_mono2) simp
  also have "\<dots> \<le> length samples" by simp
  finally show ?thesis .
qed

section \<open>The headers\<close>

text \<open>
  Claim C1. For every sample count \<open>n \<ge> 0\<close>, the headers built by \<open>create_headers\<close>
  have \<open>data_size = 2 * n\<close> and \<open>file_size = 44 - 8 + 2 * n\<close>, that is the size of the
  packed headers (44 bytes) minus 8 plus \<open>data_size\<close>.
\<close>

theorem create_headers_sizes:
  "0 \<le> n \<Longrightarrow>
     data_size (create_headers n) = 2 * n \<and>
     file_size (create_headers n) = 44 - 8 + 2 * n \<and>
     calcsize WAVE_FILE_HEADERS_STRUCT = 44 \<and>
     file_size (create_headers n) =
       int (calcsize WAVE_FILE_HEADERS_STRUCT) - 8 + data_size (create_headers n)"
  by (simp add: create_headers_eq calcsize_WAVE_FILE_HEADERS_STRUCT)

theorem create_headers_sizes_witness:
  "(0::int) \<le> 3 \<and> data_size (create_headers 3) = 6 \<and> file_size (create_headers 3) = 42"
  using create_headers_sizes [of 3] by simp

text \<open>
  Claim C9. The field \<open>bytes_per_second\<close> (the byte rate) of every header built is
  \<open>SAMPLING_FREQ * SAMPLE_WIDTH = 44100 * 2 = 88200\<close>; the number of channels of the
  header (2) is not a factor of it.
\<close>

theorem create_headers_byte_rate:
  "bytes_per_second (create_headers n) = SAMPLING_FREQ * SAMPLE_WIDTH \<and>
   SAMPLING_FREQ * SAMPLE_WIDTH = 44100 * 2 \<and>
   bytes_per_second (create_headers n) = 88200 \<and>
   bytes_per_second (create_headers n) \<noteq>
     SAMPLING_FREQ * SAMPLE_WIDTH * num_channels (create_headers n)"
  by (simp add: create_headers_eq SAMPLING_FREQ_def SAMPLE_WIDTH_eq)

theorem create_headers_byte_rate_witness:
  "bytes_per_second (create_headers 5) = 88200 \<and> num_channels (create_headers 5) = 2"
  using create_headers_byte_rate [of 5] by (simp add: create_headers_eq)

section \<open>The channels\<close>

text \<open>
  Claim C8, as stated: for every list of channels of one length \<open>L\<close>,
  \<open>separate_channels (merge_channels channels) (len channels)\<close> is \<open>channels\<close>. It fails
  for the empty list of channels: the merged list is empty, and \<open>separate_channels\<close>
  divides by the number of channels, 0.
\<close>

theorem merge_separate_no_channel:
  "merge_channels ([] :: real list list) = [] \<and>
   separate_channels (merge_channels ([] :: real list list)) (int (length ([] :: real list list))) =
     Inl ZeroDivisionError \<and>
   separate_channels (merge_channels ([] :: real list list)) (int (length ([] :: real list list))) \<noteq>
     Inr []"
  by (simp add: merge_channels_def separate_channels_def zip_star.simps)

text \<open>
  Claim C8, amended: for every list of at least one channel, all of one length \<open>L\<close>,
  \<open>merge_channels\<close> gives the interleaving, of length \<open>L * C\<close> with the element
  \<open>channels[c][i]\<close> at index \<open>i * C + c\<close>, and \<open>separate_channels\<close> with the number of
  channels gives the channels back.
\<close>

theorem merge_separate_inverse:
  assumes "channels \<noteq> []" and "\<forall>xs\<in>set channels. length xs = L"
  shows "length (merge_channels channels) = L * length channels \<and>
     (\<forall>i<L. \<forall>c<length channels. merge_channels channels ! (i * length channels + c) = channels ! c ! i) \<and>
     separate_channels (merge_channels channels) (int (length channels)) = Inr channels"
proof -
  define C where "C = length channels"
  define yss where "yss = map (\<lambda>i. map (\<lambda>xs. xs ! i) channels) [0..<L]"
  have C: "0 < C" using assms(1) by (simp add: C_def)
  have m: "merge_channels channels = concat yss"
    unfolding merge_channels_def yss_def using assms by (subst zip_star_uniform [of _ L]) auto
  have u: "\<And>ys. ys \<in> set yss \<Longrightarrow> length ys = C" by (auto simp: yss_def C_def)
  have len: "length (merge_channels channels) = L * C"
    using concat_uniform_length [of yss C] u by (simp add: m yss_def)
  have nth: "merge_channels channels ! (i * C + c) = channels ! c ! i" if "i < L" "c < C" for i c
  proof -
    have "concat yss ! (i * C + c) = yss ! i ! c"
      using u that by (intro concat_uniform_nth) (auto simp: yss_def)
    then show ?thesis using that by (simp add: m yss_def C_def)
  qed
  have "separate_channels (merge_channels channels) (int C) =
     Inr (map (\<lambda>j. map (\<lambda>i. merge_channels channels ! (C * i + j)) [0..<L]) [0..<C])"
    using C by (simp add: separate_channels_eq len)
  also have "map (\<lambda>j. map (\<lambda>i. merge_channels channels ! (C * i + j)) [0..<L]) [0..<C] = channels"
  proof (rule nth_equalityI)
    show "length (map (\<lambda>j. map (\<lambda>i. merge_channels channels ! (C * i + j)) [0..<L]) [0..<C]) =
      length channels" by (simp add: C_def)
  next
    fix j
    assume "j < length (map (\<lambda>j. map (\<lambda>i. merge_channels channels ! (C * i + j)) [0..<L]) [0..<C])"
    then have j: "j < C" by simp
    then have lj: "length (channels ! j) = L" using assms(2) by (simp add: C_def)
    have "map (\<lambda>i. merge_channels channels ! (C * i + j)) [0..<L] = channels ! j"
    proof (rule nth_equalityI)
      show "length (map (\<lambda>i. merge_channels channels ! (C * i + j)) [0..<L]) = length (channels ! j)"
        by (simp add: lj)
    next
      fix i
      assume "i < length (map (\<lambda>i. merge_channels channels ! (C * i + j)) [0..<L])"
      then have i: "i < L" by simp
      then have "merge_channels channels ! (i * C + j) = channels ! j ! i" using j by (rule nth)
      then show "map (\<lambda>i. merge_channels channels ! (C * i + j)) [0..<L] ! i = channels ! j ! i"
        using i by (simp add: mult.commute)
    qed
    then show "map (\<lambda>j. map (\<lambda>i. merge_channels channels ! (C * i + j)) [0..<L]) [0..<C] ! j =
      channels ! j" using j by simp
  qed
  finally have sep: "separate_channels (merge_channels channels) (int C) = Inr channels" .
  have "\<forall>i<L. \<forall>c<C. merge_channels channels ! (i * C + c) = channels ! c ! i"
    using nth by blast
  with len sep show ?thesis unfolding C_def by blast
qed

theorem merge_separate_inverse_witness:
  "separate_channels (merge_channels [[1, 2, 3], [4, 5, 6 :: real]]) 2 =
     Inr [[1, 2, 3], [4, 5, 6]] \<and>
   length (merge_channels [[1, 2, 3], [4, 5, 6 :: real]]) = 6"
  using merge_separate_inverse [of "[[1, 2, 3], [4, 5, 6 :: real]]" 3] by simp

section \<open>The samples\<close>

text \<open>
  Claim C2. For every list \<open>s\<close> of floats in \<open>[-1, 1]\<close> (such floats are finite:
  \<open>map Finite s\<close> is the list of the floats), \<open>convert_to_bytes\<close> returns
  bytes, the integers unpacked from them are the integers that were packed, and
  \<open>convert_to_samples\<close> of these integers is a list of the length of \<open>s\<close> whose element
  at each index differs from the element of \<open>s\<close> by at most \<open>1 / 32767\<close>. The two
  roundings of the float arithmetic are part of the statement.
\<close>

theorem encode_decode_roundtrip:
  assumes "\<forall>x\<in>set s. - 1 \<le> x \<and> x \<le> 1"
  shows "\<exists>bs ints out.
     convert_to_bytes (map Finite s) = Inr bs \<and>
     unpack (replicate (length s) Fmt_h) bs = Inr (map VInt ints) \<and>
     convert_to_samples ints = Inr out \<and>
     length out = length s \<and>
     (\<forall>i<length s. \<bar>out ! i - s ! i\<bar> \<le> 1 / 32767)"
proof -
  obtain ints out where i: "map_result int_of_sample (map Finite s) = Inr ints" and r: "list_all int16 ints"
    and l: "length ints = length s" and o: "convert_to_samples ints = Inr out"
    and e: "list_all2 (\<lambda>d x. \<bar>d - x\<bar> \<le> 1 / 32767) out s"
    using samples_roundtrip [of s] assms by blast
  define bs where "bs = concat (map (le_bytes 2) ints)"
  have "convert_to_bytes (map Finite s) = Inr bs"
    using r by (simp add: convert_to_bytes_cases i bs_def)
  moreover have "unpack (replicate (length s) Fmt_h) bs = Inr (map VInt ints)"
    using unpack_h_list [OF r] by (simp add: l bs_def)
  moreover have "length out = length s" using e by (simp add: list_all2_lengthD)
  moreover have "\<forall>i<length s. \<bar>out ! i - s ! i\<bar> \<le> 1 / 32767"
    using e by (simp add: list_all2_conv_all_nth)
  ultimately show ?thesis using o by blast
qed

theorem encode_decode_roundtrip_witness:
  "\<exists>bs ints out.
     convert_to_bytes (map Finite [1 / 2, - 1, 1 / 3]) = Inr bs \<and>
     unpack (replicate (length [1 / 2, - 1, 1 / 3 :: real]) Fmt_h) bs = Inr (map VInt ints) \<and>
     convert_to_samples ints = Inr out \<and>
     length out = length [1 / 2, - 1, 1 / 3 :: real] \<and>
     (\<forall>i<length [1 / 2, - 1, 1 / 3 :: real]. \<bar>out ! i - [1 / 2, - 1, 1 / 3] ! i\<bar> \<le> 1 / 32767)"
  using encode_decode_roundtrip [of "[1 / 2, - 1, 1 / 3]"] by simp


text \<open>
  Claim C3. \<open>convert_to_bytes\<close> of the two samples \<open>0.5\<close> and \<open>-0.5\<close> is exactly the four
  bytes \<open>0xFF, 0x3F, 0x01, 0xC0\<close>: the samples times 32767 are \<open>16383.5\<close> and
  \<open>-16383.5\<close>, cut towards zero to \<open>16383\<close> and \<open>-16383\<close>, packed as little-endian
  signed 16-bit integers.
\<close>

theorem convert_to_bytes_half:
  "map_result int_of_sample [Finite (1 / 2), Finite (- 1 / 2)] = Inr [16383, - 16383] \<and>
   pack (replicate 2 Fmt_h) [VInt 16383, VInt (- 16383)] = Inr [0xFF, 0x3F, 0x01, 0xC0] \<and>
   convert_to_bytes [Finite (1 / 2), Finite (- 1 / 2)] = Inr [0xFF, 0x3F, 0x01, 0xC0]"
  using int_of_sample_minus [OF int_of_sample_half]
  by (simp add: convert_to_bytes_def int_of_sample_half le_bytes_2 replicate_2)

theorem convert_to_bytes_half_witness:
  "map_sum id length (convert_to_bytes [Finite (1 / 2), Finite (- 1 / 2)]) = Inr 4"
  using convert_to_bytes_half by simp

text \<open>
  Claim C10. \<open>convert_to_samples\<close> does not clamp: the two bytes \<open>0x00, 0x80\<close> are the
  integer \<open>-32768\<close>, whose sample is the float \<open>-32768 / 32767\<close>, strictly below \<open>-1\<close>.
\<close>

theorem convert_to_samples_below_minus_one:
  "unpack (replicate 1 Fmt_h) [0x00, 0x80] = Inr [VInt (- 32768)] \<and>
   convert_to_samples [- 32768] = Inr [fl (- 32768 / 32767)] \<and>
   fl (- 32768 / 32767) = - (35185445863425 / 35184372088832) \<and>
   fl (- 32768 / 32767) < - 1"
  using sample_of_int_small [of "- 32768"]
  by (simp add: unpack_def calcsize_def convert_to_samples_def fl_min_sample)

theorem convert_to_samples_below_minus_one_witness:
  "convert_to_samples [- 32768] = Inr [- (35185445863425 / 35184372088832)]"
  using convert_to_samples_below_minus_one by simp

text \<open>
  Claim C7, as stated: \<open>convert_to_bytes\<close> returns bytes for every sample outside
  \<open>[-1, 1]\<close>, the value wrapping around in the 16-bit field. It fails for the sample
  \<open>2.0\<close>: the integer is 65534 and \<^verbatim>\<open>struct.pack\<close> raises \<^verbatim>\<open>struct.error\<close>.
\<close>

theorem convert_to_bytes_out_of_range_raises: "convert_to_bytes [Finite 2] = Inl StructError"
  using fl_of_int [of 65534]
  by (simp add: convert_to_bytes_def int_of_sample_Finite_eq py_int_def)

text \<open>
  Claim C7, amended: \<open>convert_to_bytes\<close> does not clamp, and nothing wraps around.
  \<^item> It returns bytes exactly when every sample is finite and its integer (the sample
    times 32767, cut towards zero) is in the signed 16-bit range \<open>[-32768, 32767]\<close>;
    the bytes are the little-endian packing of these integers unchanged. This covers
    samples a little outside \<open>[-1, 1]\<close>.
  \<^item> It raises \<^verbatim>\<open>struct.error\<close> exactly when every sample is finite with a finite
    product and some integer is outside the 16-bit range.
  \<^item> It raises \<^verbatim>\<open>ValueError\<close> exactly when the first sample that is not finite with a
    finite product is NaN.
  \<^item> It raises \<^verbatim>\<open>OverflowError\<close> exactly when the first such sample is an infinity
    or has an infinite product.
  \<^item> It raises nothing else.
\<close>

theorem convert_to_bytes_no_clamp:
  "(convert_to_bytes samples = Inr bs \<longleftrightarrow>
      (\<exists>xs. samples = map Finite xs \<and>
         list_all (\<lambda>x. int16 (py_int (fl (x * 32767)))) xs \<and>
         bs = concat (map (\<lambda>x. le_bytes 2 (py_int (fl (x * 32767)))) xs))) \<and>
   (convert_to_bytes samples = Inl StructError \<longleftrightarrow>
      (\<exists>xs. samples = map Finite xs \<and>
         list_all (\<lambda>x. \<bar>fl (x * 32767)\<bar> < 2 ^ 1024) xs \<and>
         \<not> list_all (\<lambda>x. int16 (py_int (fl (x * 32767)))) xs)) \<and>
   (convert_to_bytes samples = Inl ValueError \<longleftrightarrow>
      (\<exists>xs rest. samples = map Finite xs @ NaN # rest \<and>
         list_all (\<lambda>x. \<bar>fl (x * 32767)\<bar> < 2 ^ 1024) xs)) \<and>
   (convert_to_bytes samples = Inl OverflowError \<longleftrightarrow>
      (\<exists>xs s rest. samples = map Finite xs @ s # rest \<and>
         list_all (\<lambda>x. \<bar>fl (x * 32767)\<bar> < 2 ^ 1024) xs \<and>
         (s = PosInf \<or> s = NegInf \<or> (\<exists>x. s = Finite x \<and> 2 ^ 1024 \<le> \<bar>fl (x * 32767)\<bar>)))) \<and>
   convert_to_bytes samples \<noteq> Inl TypeError \<and>
   convert_to_bytes samples \<noteq> Inl ZeroDivisionError"
proof -
  let ?g = "\<lambda>x. py_int (fl (x * 32767))"
  let ?ok = "\<lambda>x. \<bar>fl (x * 32767)\<bar> < (2::real) ^ 1024"
  have ok: "list_all ?ok xs" if "list_all (\<lambda>x. int16 (?g x)) xs" for xs
    using that int16_no_overflow unfolding list_all_iff by blast
  have A: "convert_to_bytes samples = Inr bs \<longleftrightarrow>
      (\<exists>xs. samples = map Finite xs \<and> list_all (\<lambda>x. int16 (?g x)) xs \<and>
         bs = concat (map (\<lambda>x. le_bytes 2 (?g x)) xs))"
  proof
    assume a: "convert_to_bytes samples = Inr bs"
    then obtain ints where i: "map_result int_of_sample samples = Inr ints"
      by (cases "map_result int_of_sample samples") (auto simp: convert_to_bytes_cases)
    then obtain xs where xs: "samples = map Finite xs" "list_all ?ok xs" "ints = map ?g xs"
      by (auto simp: map_result_int_of_sample_Inr)
    have "list_all int16 ints \<and> bs = concat (map (le_bytes 2) ints)"
      using a i by (auto simp: convert_to_bytes_cases split: if_splits)
    then have "list_all (\<lambda>x. int16 (?g x)) xs \<and> bs = concat (map (\<lambda>x. le_bytes 2 (?g x)) xs)"
      using xs(3) by (simp add: list_all_iff comp_def)
    with xs(1) show "\<exists>xs. samples = map Finite xs \<and> list_all (\<lambda>x. int16 (?g x)) xs \<and>
         bs = concat (map (\<lambda>x. le_bytes 2 (?g x)) xs)" by blast
  next
    assume "\<exists>xs. samples = map Finite xs \<and> list_all (\<lambda>x. int16 (?g x)) xs \<and>
         bs = concat (map (\<lambda>x. le_bytes 2 (?g x)) xs)"
    then obtain xs where xs: "samples = map Finite xs" "list_all (\<lambda>x. int16 (?g x)) xs"
      "bs = concat (map (\<lambda>x. le_bytes 2 (?g x)) xs)" by blast
    have "map_result int_of_sample samples = Inr (map ?g xs)"
      using xs(1) ok [OF xs(2)] by (auto simp: map_result_int_of_sample_Inr)
    moreover have "list_all int16 (map ?g xs)" using xs(2) by (simp add: list_all_iff)
    ultimately show "convert_to_bytes samples = Inr bs"
      using xs(3) by (simp add: convert_to_bytes_cases comp_def)
  qed
  have B: "convert_to_bytes samples = Inl StructError \<longleftrightarrow>
      (\<exists>xs. samples = map Finite xs \<and> list_all ?ok xs \<and> \<not> list_all (\<lambda>x. int16 (?g x)) xs)"
  proof
    assume a: "convert_to_bytes samples = Inl StructError"
    have "map_result int_of_sample samples \<noteq> Inl StructError"
      using int_of_sample_errors by (fastforce simp: map_result_Inl)
    then obtain ints where i: "map_result int_of_sample samples = Inr ints"
      using a by (cases "map_result int_of_sample samples") (auto simp: convert_to_bytes_cases)
    then obtain xs where xs: "samples = map Finite xs" "list_all ?ok xs" "ints = map ?g xs"
      by (auto simp: map_result_int_of_sample_Inr)
    have "\<not> list_all int16 ints"
      using a i by (auto simp: convert_to_bytes_cases split: if_splits)
    then have "\<not> list_all (\<lambda>x. int16 (?g x)) xs" using xs(3) by (simp add: list_all_iff)
    with xs(1,2) show "\<exists>xs. samples = map Finite xs \<and> list_all ?ok xs \<and>
      \<not> list_all (\<lambda>x. int16 (?g x)) xs" by blast
  next
    assume "\<exists>xs. samples = map Finite xs \<and> list_all ?ok xs \<and> \<not> list_all (\<lambda>x. int16 (?g x)) xs"
    then obtain xs where xs: "samples = map Finite xs" "list_all ?ok xs"
      "\<not> list_all (\<lambda>x. int16 (?g x)) xs" by blast
    have "map_result int_of_sample samples = Inr (map ?g xs)"
      using xs(1,2) by (auto simp: map_result_int_of_sample_Inr)
    moreover have "\<not> list_all int16 (map ?g xs)" using xs(3) by (simp add: list_all_iff)
    ultimately show "convert_to_bytes samples = Inl StructError"
      by (simp add: convert_to_bytes_cases)
  qed
  have first: "convert_to_bytes samples = Inl e \<longleftrightarrow>
      (\<exists>xs s rest. samples = map Finite xs @ s # rest \<and> list_all ?ok xs \<and> int_of_sample s = Inl e)"
    if e: "e \<noteq> StructError" for e
  proof
    assume a: "convert_to_bytes samples = Inl e"
    then have "map_result int_of_sample samples = Inl e"
      using e by (cases "map_result int_of_sample samples")
        (auto simp: convert_to_bytes_cases split: if_splits)
    then obtain pre s rest ys where p: "samples = pre @ s # rest"
      and q: "map_result int_of_sample pre = Inr ys" and r: "int_of_sample s = Inl e"
      by (auto simp: map_result_Inl)
    obtain xs where "pre = map Finite xs" "list_all ?ok xs"
      using q by (auto simp: map_result_int_of_sample_Inr)
    with p r show "\<exists>xs s rest. samples = map Finite xs @ s # rest \<and> list_all ?ok xs \<and>
      int_of_sample s = Inl e" by blast
  next
    assume "\<exists>xs s rest. samples = map Finite xs @ s # rest \<and> list_all ?ok xs \<and>
      int_of_sample s = Inl e"
    then obtain xs s rest where p: "samples = map Finite xs @ s # rest" and q: "list_all ?ok xs"
      and r: "int_of_sample s = Inl e" by blast
    have "map_result int_of_sample (map Finite xs) = Inr (map ?g xs)"
      using q by (auto simp: map_result_int_of_sample_Inr)
    then have "map_result int_of_sample samples = Inl e"
      using p r by (auto simp: map_result_Inl)
    then show "convert_to_bytes samples = Inl e" by (simp add: convert_to_bytes_cases)
  qed
  have C: "convert_to_bytes samples = Inl ValueError \<longleftrightarrow>
      (\<exists>xs rest. samples = map Finite xs @ NaN # rest \<and> list_all ?ok xs)"
    using first [of ValueError] by (auto simp: int_of_sample_ValueError)
  have D: "convert_to_bytes samples = Inl OverflowError \<longleftrightarrow>
      (\<exists>xs s rest. samples = map Finite xs @ s # rest \<and> list_all ?ok xs \<and>
         (s = PosInf \<or> s = NegInf \<or> (\<exists>x. s = Finite x \<and> 2 ^ 1024 \<le> \<bar>fl (x * 32767)\<bar>)))"
    using first [of OverflowError] by (simp add: int_of_sample_OverflowError)
  have E: "convert_to_bytes samples \<noteq> Inl TypeError"
    "convert_to_bytes samples \<noteq> Inl ZeroDivisionError"
    using first [of TypeError] first [of ZeroDivisionError] int_of_sample_errors by fastforce+
  from A B C D E show ?thesis by blast
qed

theorem convert_to_bytes_no_clamp_witness:
  "convert_to_bytes [Finite (- (32769 / 32768))] = Inr [0x01, 0x80] \<and>
   - (32769 / 32768) < (- 1 :: real) \<and>
   convert_to_bytes [Finite (1 / 2), NaN, PosInf] = Inl ValueError \<and>
   convert_to_bytes [Finite (1 / 2), NegInf, NaN] = Inl OverflowError \<and>
   convert_to_bytes [Finite (1 / 2), Finite 2] = Inl StructError"
proof -
  have h: "\<bar>fl (1 / 2 * 32767)\<bar> < (2::real) ^ 1024" "py_int (fl (1 / 2 * 32767)) = 16383"
    by (simp_all add: fl_half_32767 py_int_def)
  have t: "fl (2 * 32767) = 65534" using fl_of_int [of 65534] by simp
  have "\<exists>xs. [Finite (- (32769 / 32768))] = map Finite xs \<and>
      list_all (\<lambda>x. int16 (py_int (fl (x * 32767)))) xs \<and>
      [0x01, 0x80] = concat (map (\<lambda>x. le_bytes 2 (py_int (fl (x * 32767)))) xs)"
    by (rule exI [of _ "[- (32769 / 32768)]"])
      (simp add: fl_below_minus_one py_int_def int16_def le_bytes_2)
  then have 1: "convert_to_bytes [Finite (- (32769 / 32768))] = Inr [0x01, 0x80]"
    by (rule iffD2 [OF conjunct1 [OF convert_to_bytes_no_clamp]])
  have "\<exists>xs rest. [Finite (1 / 2), NaN, PosInf] = map Finite xs @ NaN # rest \<and>
      list_all (\<lambda>x. \<bar>fl (x * 32767)\<bar> < 2 ^ 1024) xs"
    using h by (intro exI [of _ "[1 / 2]"] exI [of _ "[PosInf]"]) simp
  then have 2: "convert_to_bytes [Finite (1 / 2), NaN, PosInf] = Inl ValueError"
    by (rule iffD2 [OF conjunct1 [OF conjunct2 [OF conjunct2 [OF convert_to_bytes_no_clamp]]]])
  have "\<exists>xs s rest. [Finite (1 / 2), NegInf, NaN] = map Finite xs @ s # rest \<and>
      list_all (\<lambda>x. \<bar>fl (x * 32767)\<bar> < 2 ^ 1024) xs \<and>
      (s = PosInf \<or> s = NegInf \<or> (\<exists>x. s = Finite x \<and> 2 ^ 1024 \<le> \<bar>fl (x * 32767)\<bar>))"
    using h by (intro exI [of _ "[1 / 2]"] exI [of _ NegInf] exI [of _ "[NaN]"]) simp
  then have 3: "convert_to_bytes [Finite (1 / 2), NegInf, NaN] = Inl OverflowError"
    by (rule iffD2 [OF conjunct1 [OF conjunct2 [OF conjunct2 [OF conjunct2
      [OF convert_to_bytes_no_clamp]]]]])
  have "\<exists>xs. [Finite (1 / 2), Finite 2] = map Finite xs \<and>
      list_all (\<lambda>x. \<bar>fl (x * 32767)\<bar> < 2 ^ 1024) xs \<and>
      \<not> list_all (\<lambda>x. int16 (py_int (fl (x * 32767)))) xs"
    using h t by (intro exI [of _ "[1 / 2, 2]"]) (simp add: py_int_def int16_def)
  then have 4: "convert_to_bytes [Finite (1 / 2), Finite 2] = Inl StructError"
    by (rule iffD2 [OF conjunct1 [OF conjunct2 [OF convert_to_bytes_no_clamp]]])
  from 1 2 3 4 show ?thesis by simp
qed

section \<open>The files\<close>

text \<open>
  Claim C4, as stated: the writer takes a channel count and writes it into the header.
  \<open>write_wave_file\<close> has no such argument, and the header it writes for a caller who
  has one channel says 2 channels.
\<close>

theorem write_wave_file_one_channel:
  "and_then (write_wave_file []) parse_headers = Inr (create_headers 0) \<and>
   num_channels (create_headers 0) = 2 \<and>
   num_channels (create_headers 0) \<noteq> 1"
proof -
  have "write_wave_file [] =
    Inr [82, 73, 70, 70, 36, 0, 0, 0, 87, 65, 86, 69, 102, 109, 116, 32, 16, 0, 0, 0, 1, 0,
         2, 0, 68, 172, 0, 0, 136, 88, 1, 0, 2, 0, 16, 0, 100, 97, 116, 97, 0, 0, 0, 0]"
    by (simp add: write_wave_file_def pack_create_headers convert_to_bytes_def tag_defs
        le_bytes_2 le_bytes_4)
  moreover have "parse_headers
      [82, 73, 70, 70, 36, 0, 0, 0, 87, 65, 86, 69, 102, 109, 116, 32, 16, 0, 0, 0, 1, 0,
       2, 0, 68, 172, 0, 0, 136, 88, 1, 0, 2, 0, 16, 0, 100, 97, 116, 97, 0, 0, 0, 0] =
    Inr (create_headers 0)"
    by (simp add: parse_headers_def calcsize_def unpack_def struct_defs headers_of_vals_def
        create_headers_eq tag_defs)
  ultimately show ?thesis by (simp add: create_headers_eq)
qed

text \<open>
  Claim C4, amended: the writer takes the samples only; whenever it writes a file, the
  header of the file is \<open>create_headers\<close> of the number of samples, and its channel
  count (the bytes 22 and 23 of the file) is the constant 2.
\<close>

theorem write_wave_file_channels:
  "write_wave_file samples = Inr bs \<Longrightarrow>
     parse_headers bs = Inr (create_headers (int (length samples))) \<and>
     num_channels (create_headers (int (length samples))) = 2 \<and>
     take 2 (drop 22 bs) = [2, 0]"
proof -
  assume a: "write_wave_file samples = Inr bs"
  define n where "n = int (length samples)"
  obtain hb where hb: "pack WAVE_FILE_HEADERS_STRUCT (vals_of_headers (create_headers n)) = Inr hb"
    using a unfolding write_wave_file_def Let_def n_def
    by (cases "pack WAVE_FILE_HEADERS_STRUCT (vals_of_headers (create_headers (int (length samples))))") auto
  obtain db where db: "convert_to_bytes samples = Inr db"
    using a hb unfolding write_wave_file_def Let_def n_def
    by (cases "convert_to_bytes samples") auto
  have bs: "bs = hb @ db" using a hb db by (simp add: write_wave_file_def n_def)
  have p: "parse_headers (hb @ db) = Inr (create_headers n) \<and> length hb = 44 \<and>
    take 2 (drop 22 hb) = [2, 0]" using hb by (rule parse_packed_headers)
  then have "take 2 (drop 22 (hb @ db)) = [2, 0]" by simp
  with p show ?thesis by (simp add: bs n_def create_headers_eq)
qed

theorem write_wave_file_channels_witness:
  "write_wave_file [Finite (1 / 2)] =
     Inr [82, 73, 70, 70, 38, 0, 0, 0, 87, 65, 86, 69, 102, 109, 116, 32, 16, 0, 0, 0, 1, 0,
          2, 0, 68, 172, 0, 0, 136, 88, 1, 0, 2, 0, 16, 0, 100, 97, 116, 97, 2, 0, 0, 0,
          255, 63] \<and>
   parse_headers
     [82, 73, 70, 70, 38, 0, 0, 0, 87, 65, 86, 69, 102, 109, 116, 32, 16, 0, 0, 0, 1, 0,
      2, 0, 68, 172, 0, 0, 136, 88, 1, 0, 2, 0, 16, 0, 100, 97, 116, 97, 2, 0, 0, 0,
      255, 63] = Inr (create_headers 1) \<and>
   num_channels (create_headers 1) = 2"
proof -
  have w: "write_wave_file [Finite (1 / 2)] =
     Inr [82, 73, 70, 70, 38, 0, 0, 0, 87, 65, 86, 69, 102, 109, 116, 32, 16, 0, 0, 0, 1, 0,
          2, 0, 68, 172, 0, 0, 136, 88, 1, 0, 2, 0, 16, 0, 100, 97, 116, 97, 2, 0, 0, 0,
          255, 63]"
    by (simp add: write_wave_file_def pack_create_headers convert_to_bytes_def tag_defs
        le_bytes_2 le_bytes_4 int_of_sample_half)
  show ?thesis using w write_wave_file_channels [OF w] by simp
qed

text \<open>
  Claim C5, as stated: \<open>create_headers\<close> fails with an error for no channel and for a
  sample count whose sizes do not fit in 32 bits. \<open>create_headers\<close> has no channel
  argument and checks nothing: for \<open>2 ^ 32\<close> samples it returns a header whose sizes
  need more than 32 bits.
\<close>

theorem create_headers_no_check:
  "create_headers 4294967296 =
     \<lparr> riff_id = b_RIFF, file_size = 8589934628, wave = b_WAVE, fmt_id = b_fmt,
       fmt_size = 16, wav_type = 1, num_channels = 2, sampling_freq = 44100,
       bytes_per_second = 88200, bytes_per_sample = 2, sample_bits = 16,
       data_id = b_data, data_size = 8589934592 \<rparr> \<and>
   \<not> data_size (create_headers 4294967296) < 2 ^ 32 \<and>
   \<not> file_size (create_headers 4294967296) < 2 ^ 32"
  by (simp add: create_headers_eq)

text \<open>
  Claim C5, amended: \<open>create_headers\<close> takes the sample count only and returns a header
  for every sample count, with 2 channels. A header whose sizes do not fit their
  unsigned 32-bit fields is refused only when it is packed, by \<^verbatim>\<open>struct.error\<close>:
  exactly for a negative sample count and for more than 2147483629 samples.
\<close>

theorem create_headers_total:
  "create_headers n =
     \<lparr> riff_id = b_RIFF, file_size = 36 + 2 * n, wave = b_WAVE, fmt_id = b_fmt,
       fmt_size = 16, wav_type = 1, num_channels = 2, sampling_freq = 44100,
       bytes_per_second = 88200, bytes_per_sample = 2, sample_bits = 16,
       data_id = b_data, data_size = 2 * n \<rparr> \<and>
   (pack WAVE_FILE_HEADERS_STRUCT (vals_of_headers (create_headers n)) = Inl StructError
      \<longleftrightarrow> n < 0 \<or> 2147483629 < n)"
  by (auto simp: create_headers_eq [symmetric] pack_create_headers)

theorem create_headers_total_witness:
  "data_size (create_headers 2147483630) = 4294967260 \<and>
   file_size (create_headers 2147483630) = 4294967296 \<and>
   pack WAVE_FILE_HEADERS_STRUCT (vals_of_headers (create_headers 2147483630)) =
     Inl StructError"
  using create_headers_total [of 2147483630] by (simp add: create_headers_eq)

text \<open>
  Claim C6, as stated: when fewer than \<open>data_size\<close> bytes follow the 44 bytes of the
  header, the reader raises. It fails for an odd \<open>data_size\<close>: with \<open>data_size = 1\<close> and
  no byte after the header, the reader returns the header and no sample.
\<close>

theorem read_wave_file_odd_data_size:
  "read_wave_file
     [82, 73, 70, 70, 36, 0, 0, 0, 87, 65, 86, 69, 102, 109, 116, 32, 16, 0, 0, 0, 1, 0,
      2, 0, 68, 172, 0, 0, 136, 88, 1, 0, 2, 0, 16, 0, 100, 97, 116, 97, 1, 0, 0, 0] =
     Inr (create_headers 0 \<lparr> data_size := 1 \<rparr>, []) \<and>
   data_size (create_headers 0 \<lparr> data_size := 1 \<rparr>) = 1"
  by (simp add: read_wave_file_def parse_headers_def calcsize_def unpack_def struct_defs
      headers_of_vals_def create_headers_eq tag_defs convert_to_samples_def)

text \<open>
  Claim C6, amended: the reader reads \<open>data_size // 2\<close> whole samples. When fewer than
  \<open>2 * (data_size // 2)\<close> bytes follow the 44 bytes of a header that parses, the reader
  raises \<^verbatim>\<open>struct.error\<close> and returns no sample.
\<close>

theorem read_wave_file_truncated:
  assumes "parse_headers file = Inr h"
    and "length file - 44 < 2 * nat (data_size h div 2)"
  shows "read_wave_file file = Inl StructError"
proof -
  define sample_count where "sample_count = data_size h div 2"
  define raw_bytes where
    "raw_bytes = take (nat (sample_count * 2)) (drop (calcsize WAVE_FILE_HEADERS_STRUCT) file)"
  have "length raw_bytes \<le> length file - 44"
    by (simp add: raw_bytes_def calcsize_WAVE_FILE_HEADERS_STRUCT)
  then have "length raw_bytes \<noteq> calcsize (replicate (nat sample_count) Fmt_h)"
    using assms(2) by (simp add: calcsize_replicate_h sample_count_def)
  then have "unpack (replicate (nat sample_count) Fmt_h) raw_bytes = Inl StructError"
    by (simp add: unpack_def)
  then show ?thesis
    by (simp add: read_wave_file_def assms(1) Let_def sample_count_def raw_bytes_def)
qed

theorem read_wave_file_truncated_witness:
  "parse_headers
     [82, 73, 70, 70, 36, 0, 0, 0, 87, 65, 86, 69, 102, 109, 116, 32, 16, 0, 0, 0, 1, 0,
      2, 0, 68, 172, 0, 0, 136, 88, 1, 0, 2, 0, 16, 0, 100, 97, 116, 97, 2, 0, 0, 0] =
     Inr (create_headers 0 \<lparr> data_size := 2 \<rparr>) \<and>
   read_wave_file
     [82, 73, 70, 70, 36, 0, 0, 0, 87, 65, 86, 69, 102, 109, 116, 32, 16, 0, 0, 0, 1, 0,
      2, 0, 68, 172, 0, 0, 136, 88, 1, 0, 2, 0, 16, 0, 100, 97, 116, 97, 2, 0, 0, 0] =
     Inl StructError"
proof -
  have p: "parse_headers
     [82, 73, 70, 70, 36, 0, 0, 0, 87, 65, 86, 69, 102, 109, 116, 32, 16, 0, 0, 0, 1, 0,
      2, 0, 68, 172, 0, 0, 136, 88, 1, 0, 2, 0, 16, 0, 100, 97, 116, 97, 2, 0, 0, 0] =
     Inr (create_headers 0 \<lparr> data_size := 2 \<rparr>)"
    by (simp add: parse_headers_def calcsize_def unpack_def struct_defs headers_of_vals_def
        create_headers_eq tag_defs)
  show ?thesis using p read_wave_file_truncated [OF p] by simp
qed

text \<open>
  The other side: when at least \<open>2 * (data_size // 2)\<close> bytes follow the header, the
  reader returns the header and \<open>data_size // 2\<close> samples.
\<close>

lemma read_wave_file_complete:
  assumes "parse_headers file = Inr h"
    and "2 * nat (data_size h div 2) \<le> length file - 44"
  shows "\<exists>samples. read_wave_file file = Inr (h, samples) \<and>
    length samples = nat (data_size h div 2)"
proof -
  define k where "k = nat (data_size h div 2)"
  define raw_bytes where
    "raw_bytes = take (nat (data_size h div 2 * 2)) (drop (calcsize WAVE_FILE_HEADERS_STRUCT) file)"
  have n: "nat (data_size h div 2 * 2) = 2 * k" by (simp add: k_def nat_mult_distrib)
  have l: "length raw_bytes = 2 * k"
    using assms(2) by (simp add: raw_bytes_def calcsize_WAVE_FILE_HEADERS_STRUCT n k_def)
  then obtain ints where i: "unpack_fields (replicate k Fmt_h) raw_bytes = map VInt ints"
    "list_all int16 ints" "length ints = k"
    using unpack_fields_h_int16 by blast
  have u: "unpack (replicate k Fmt_h) raw_bytes = Inr (map VInt ints)"
    by (simp add: unpack_def l calcsize_replicate_h i(1))
  have c: "convert_to_samples ints = Inr (map (\<lambda>v. fl (of_int v / 32767)) ints)"
    using i(2) by (rule convert_to_samples_int16)
  have "read_wave_file file = Inr (h, map (\<lambda>v. fl (of_int v / 32767)) ints)"
    using u c
    by (simp add: read_wave_file_def assms(1) Let_def k_def [symmetric] raw_bytes_def [symmetric]
        map_result_the_int)
  then show ?thesis using i(3) by (simp add: k_def)
qed

end
